theory Spec2Isabelle
  imports Main
begin

section \<open>Values, packets and options\<close>

text \<open>
  The adapter of \<^verbatim>\<open>index.js\<close> is a class \<^verbatim>\<open>Redis\<close> closed over the configuration
  of the factory \<^verbatim>\<open>adapter(uri, opts)\<close>: the channel prefix, the identifier of the
  process and the base timeout of a clients query. A facade is made for one
  namespace, whose name is kept with the configuration.
\<close>

record config =
  prefix :: string
  uid :: string
  nsp_name :: string
  timeout :: int

text \<open>
  A packet is an object with the attribute \<^verbatim>\<open>nsp\<close>, which may be absent
  (\<^verbatim>\<open>undefined\<close>), and a payload the adapter never reads. The options of a
  broadcast hold \<^verbatim>\<open>rooms\<close>, absent or an array of room names, besides fields
  that only the base adapter reads.
\<close>

record packet =
  nsp :: "string option"
  data :: string

record opts =
  o_rooms :: "string list option"
  o_except :: "string list"
  o_flags :: string

text \<open>
  The fields of a decoded bus message. The codec (\<^verbatim>\<open>msgpack\<close>) is outside the
  repository: a message is modelled by the array it decodes to, and encoding followed
  by decoding gives the array back. The fields are the kinds of value that the
  messages of the adapter are made of: strings, arrays of strings, packets and
  options; a field that is missing reads as \<^verbatim>\<open>undefined\<close>.
\<close>

datatype jsval =
    JUndefined
  | JStr string
  | JArr "string list"
  | JPacket packet
  | JOpts opts

text \<open>
  An error value is a \<^verbatim>\<open>TypeError\<close> thrown by the interpreter or a failure reported to
  a callback. The parameter \<^verbatim>\<open>fn\<close> of an operation is a callback or is absent.
\<close>

datatype js_error = TypeError string | Failure string

datatype fn_arg = No_fn | Fn

text \<open>
  What an operation does to the outside, in the order in which it happens: the calls
  made on the base adapter, the commands sent to the bus, the \<^verbatim>\<open>error\<close> events
  emitted on the facade, the calls of the callback \<^verbatim>\<open>fn\<close> with its arguments, the
  timer and the listener of a clients query, an exception that escapes a listener, and
  the lines of the debug log that report a dropped message (the lines that \<^verbatim>\<open>add\<close>,
  \<^verbatim>\<open>del\<close> and \<^verbatim>\<open>delAll\<close> log on entry are left out). \<open>Ill_shaped\<close> marks a call whose
  arguments are outside the model.
\<close>

datatype effect =
    LocalBroadcast packet opts
  | LocalClients jsval
  | BusSubscribe string
  | BusUnsubscribe string
  | BusPublish string "jsval list"
  | BusNumsub string
  | EmitError js_error
  | CallFn "js_error option" "string list option"
  | SetTimeout int
  | ClearTimeout
  | AddListener
  | RemoveListener
  | Uncaught js_error
  | Debug string
  | Ill_shaped

section \<open>Channel names\<close>

definition chn_nsp :: "config \<Rightarrow> string \<Rightarrow> string" where
  "chn_nsp cfg n = prefix cfg @ ''#'' @ n @ ''#''"

definition chn_room :: "config \<Rightarrow> string \<Rightarrow> string \<Rightarrow> string" where
  "chn_room cfg n room = prefix cfg @ ''#'' @ n @ ''#'' @ room @ ''#''"

definition chn_request :: "config \<Rightarrow> string" where
  "chn_request cfg = prefix cfg @ ''#clientrequest''"

definition chn_response :: "config \<Rightarrow> string \<Rightarrow> string" where
  "chn_response cfg muid = prefix cfg @ ''#'' @ muid @ ''#clientresponse''"

text \<open>String concatenation converts an absent \<^verbatim>\<open>nsp\<close> to the text \<^verbatim>\<open>undefined\<close>.\<close>

definition nsp_text :: "packet \<Rightarrow> string" where
  "nsp_text p = (case nsp p of None \<Rightarrow> ''undefined'' | Some n \<Rightarrow> n)"

section \<open>Broadcast\<close>

text \<open>
  \<^verbatim>\<open>Redis.prototype.broadcast\<close>. The base adapter's broadcast is called first; it is
  outside the repository, and the packet and the options are taken as it leaves them. Unless
  the packet came from another node, the test \<^verbatim>\<open>if (opts.rooms)\<close> chooses the
  channels: every array is truthy, the empty one too, and \<^verbatim>\<open>forEach\<close> publishes
  once for each room of the array; only an absent \<^verbatim>\<open>rooms\<close> reaches the branch that
  publishes to the channel of the namespace.
\<close>

definition broadcast :: "config \<Rightarrow> packet \<Rightarrow> opts \<Rightarrow> bool \<Rightarrow> effect list" where
  "broadcast cfg pkt os remote =
     LocalBroadcast pkt os #
     (if \<not> remote then
        (case o_rooms os of
           Some rs \<Rightarrow>
             map (\<lambda>room. BusPublish (chn_room cfg (nsp_text pkt) room)
                                     [JStr (uid cfg), JPacket pkt, JOpts os]) rs
         | None \<Rightarrow>
             [BusPublish (chn_nsp cfg (nsp_text pkt)) [JStr (uid cfg), JPacket pkt, JOpts os]])
      else [])"

text \<open>The messages published by a list of effects, and the local emits in it.\<close>

fun published :: "effect list \<Rightarrow> (string \<times> jsval list) list" where
  "published [] = []"
| "published (BusPublish c m # es) = (c, m) # published es"
| "published (_ # es) = published es"

fun local_emits :: "effect list \<Rightarrow> (packet \<times> opts) list" where
  "local_emits [] = []"
| "local_emits (LocalBroadcast p os # es) = (p, os) # local_emits es"
| "local_emits (_ # es) = local_emits es"

section \<open>The membership index and the bus\<close>

text \<open>
  The base adapter keeps two objects, \<^verbatim>\<open>this.sids\<close> from a client id to the object of
  its rooms and \<^verbatim>\<open>this.rooms\<close> from a room to the object of its client ids. The inner
  objects only ever hold the value \<^verbatim>\<open>true\<close>, so such an object is the list of its keys
  in the order of insertion, which is the order of \<^verbatim>\<open>Object.keys\<close> (JavaScript lists
  keys that are array indices first; no claim below depends on the order). The two maps of
  the state hold the own properties of the two objects. The state also holds the
  channels that the subscriber connection is subscribed to at the bus: a
  \<^verbatim>\<open>SUBSCRIBE\<close> that succeeds adds the channel, an \<^verbatim>\<open>UNSUBSCRIBE\<close> that succeeds
  removes it.
\<close>

record adapter =
  sids :: "string \<rightharpoonup> string list"
  rooms :: "string \<rightharpoonup> string list"
  subscribed :: "string set"

text \<open>
  All these objects are plain objects, made by \<^verbatim>\<open>{}\<close>, and a plain object inherits the
  members of \<^verbatim>\<open>Object.prototype\<close>: under one of the names below, \<^verbatim>\<open>obj[name]\<close> is the
  built-in member unless the object has an own property of that name, and a call
  \<^verbatim>\<open>obj.hasOwnProperty(k)\<close> reaches the built-in method only when the object has no own
  property \<^verbatim>\<open>hasOwnProperty\<close>. The names are those of Node.js; \<^verbatim>\<open>Object.prototype\<close> is
  taken to have no other member.

  For a name that is not inherited, \<^verbatim>\<open>obj[name]\<close> is the own property or
  \<^verbatim>\<open>undefined\<close>, and the maps of the state say all there is. With an inherited name,
  \<^verbatim>\<open>add\<close> and \<^verbatim>\<open>del\<close> read and write the built-in objects themselves (for
  \<^verbatim>\<open>__proto__\<close> that is \<^verbatim>\<open>Object.prototype\<close>), which the state does not hold. An
  operation gives \<open>None\<close> where it leaves the objects that the state describes; it is
  then outside the model, and nothing is said of what the code does.
\<close>

definition inherited :: "string \<Rightarrow> bool" where
  "inherited k \<longleftrightarrow>
     k \<in> set [''constructor'', ''toString'', ''toLocaleString'', ''valueOf'',
              ''hasOwnProperty'', ''isPrototypeOf'', ''propertyIsEnumerable'', ''__proto__'',
              ''__defineGetter__'', ''__defineSetter__'', ''__lookupGetter__'',
              ''__lookupSetter__'']"

definition or_empty :: "string list option \<Rightarrow> string list" where
  "or_empty v = (case v of None \<Rightarrow> [] | Some ks \<Rightarrow> ks)"

definition obj_set :: "string \<Rightarrow> string list \<Rightarrow> string list" where
  "obj_set k ks = (if k \<in> set ks then ks else ks @ [k])"

definition obj_delete :: "string \<Rightarrow> string list \<Rightarrow> string list" where
  "obj_delete k ks = filter (\<lambda>x. x \<noteq> k) ks"

text \<open>
  The bus answers a command with an error or with none. The answers are a parameter
  of every operation; an operation is run together with the callbacks of the commands
  that it sends, before the next operation starts.
\<close>

datatype bus_cmd = SUBSCRIBE string | UNSUBSCRIBE string

type_synonym bus = "bus_cmd \<Rightarrow> js_error option"

definition bus_ok :: bus where
  "bus_ok = (\<lambda>c. None)"

definition call_fn :: "fn_arg \<Rightarrow> js_error option \<Rightarrow> effect list" where
  "call_fn fn err = (case fn of No_fn \<Rightarrow> [] | Fn \<Rightarrow> [CallFn err None])"

text \<open>
  The callback that \<^verbatim>\<open>add\<close> and \<^verbatim>\<open>del\<close> give to the bus command: an error is emitted
  on the facade and handed to \<^verbatim>\<open>fn\<close>; without error \<^verbatim>\<open>fn(null)\<close> is called.
\<close>

definition reply_fn :: "js_error option \<Rightarrow> fn_arg \<Rightarrow> effect list" where
  "reply_fn r fn =
     (case r of
        Some e \<Rightarrow> EmitError e # call_fn fn (Some e)
      | None \<Rightarrow> call_fn fn None)"

text \<open>The constructor subscribes to the channel of the namespace and to the request channel.\<close>

definition init :: "config \<Rightarrow> adapter" where
  "init cfg =
     \<lparr>sids = Map.empty, rooms = Map.empty,
      subscribed = {chn_nsp cfg (nsp_name cfg), chn_request cfg}\<rparr>"

text \<open>
  \<^verbatim>\<open>Redis.prototype.add\<close>. With an id and a room that are not inherited names,
  \<^verbatim>\<open>this.sids[id] || {}\<close> and \<^verbatim>\<open>this.rooms[room] || {}\<close> are the own object or a new one,
  and the two assignments add own keys.
\<close>

definition add :: "config \<Rightarrow> bus \<Rightarrow> adapter \<Rightarrow> string \<Rightarrow> string \<Rightarrow> fn_arg \<Rightarrow> (adapter \<times> effect list) option" where
  "add cfg bus st sid room fn =
     (if inherited sid \<or> inherited room then None
      else
        (let sids1 = (sids st)(sid \<mapsto> obj_set room (or_empty (sids st sid)));
             rooms1 = (rooms st)(room \<mapsto> obj_set sid (or_empty (rooms st room)));
             channel = chn_room cfg (nsp_name cfg) room;
             r = bus (SUBSCRIBE channel)
         in Some (st\<lparr>sids := sids1, rooms := rooms1,
                    subscribed := (if r = None then insert channel (subscribed st) else subscribed st)\<rparr>,
                  BusSubscribe channel # reply_fn r fn)))"

text \<open>
  \<^verbatim>\<open>Redis.prototype.del\<close>. Both inner objects are created when missing, so after the
  two deletions \<^verbatim>\<open>this.rooms\<close> has the room as its own property:
  \<^verbatim>\<open>this.rooms.hasOwnProperty(room)\<close> holds, provided that the method is the built-in
  one, and the room is removed and its channel unsubscribed when no key is left in it.
  When \<^verbatim>\<open>this.rooms\<close> has an own property \<^verbatim>\<open>hasOwnProperty\<close>, the call is outside the
  model.
\<close>

definition del :: "config \<Rightarrow> bus \<Rightarrow> adapter \<Rightarrow> string \<Rightarrow> string \<Rightarrow> fn_arg \<Rightarrow> (adapter \<times> effect list) option" where
  "del cfg bus st sid room fn =
     (if inherited sid \<or> inherited room \<or> rooms st ''hasOwnProperty'' \<noteq> None then None
      else
        (let sids1 = (sids st)(sid \<mapsto> obj_delete room (or_empty (sids st sid)));
             left = obj_delete sid (or_empty (rooms st room));
             rooms1 = (rooms st)(room \<mapsto> left)
         in if left = [] then
              (let channel = chn_room cfg (nsp_name cfg) room;
                   r = bus (UNSUBSCRIBE channel)
               in Some (st\<lparr>sids := sids1, rooms := rooms1(room := None),
                          subscribed := (if r = None then subscribed st - {channel} else subscribed st)\<rparr>,
                        BusUnsubscribe channel # reply_fn r fn))
            else Some (st\<lparr>sids := sids1, rooms := rooms1\<rparr>, call_fn fn None)))"

text \<open>
  \<^verbatim>\<open>Redis.prototype.delAll\<close> hands the keys of \<^verbatim>\<open>this.sids[id]\<close> to \<^verbatim>\<open>async.forEach\<close>
  of the library \<^verbatim>\<open>async\<close>, which is outside the repository: it starts the iterator
  on every item in order, counts the calls of \<^verbatim>\<open>next\<close> without error, and calls the
  completion callback when the count reaches the number of items (at once when there
  is no item) or at the first \<^verbatim>\<open>next(err)\<close>.

  The iterator runs synchronously, on keys that are not inherited names and with
  \<^verbatim>\<open>hasOwnProperty\<close> the built-in method of both objects (\<^verbatim>\<open>delAll\<close> below tests this).
  \<^verbatim>\<open>rooms.hasOwnProperty(room)\<close> holds of every key of \<^verbatim>\<open>rooms\<close>, so the iterator
  deletes the id from \<^verbatim>\<open>self.rooms[room]\<close>, which throws a \<^verbatim>\<open>TypeError\<close> when
  \<^verbatim>\<open>self.rooms\<close> has no such room; \<^verbatim>\<open>self.rooms.hasOwnProperty(room)\<close> holds of the
  room just read, so the iterator then either removes the emptied room and sends the
  unsubscribe, whose callback is left pending, or leaves \<^verbatim>\<open>next\<close> to
  \<^verbatim>\<open>process.nextTick\<close>.
\<close>

datatype pending = Tick | Unsub string

fun delAll_each :: "config \<Rightarrow> string \<Rightarrow> string list \<Rightarrow> adapter \<Rightarrow> js_error option \<times> adapter \<times> pending list" where
  "delAll_each cfg sid [] st = (None, st, [])"
| "delAll_each cfg sid (room # others) st =
     (case rooms st room of
        None \<Rightarrow> (Some (TypeError ''Cannot convert undefined or null to object''), st, [])
      | Some ms \<Rightarrow>
          (let left = obj_delete sid ms in
           if left = [] then
             (case delAll_each cfg sid others (st\<lparr>rooms := (rooms st)(room := None)\<rparr>) of
                (t, st1, ps) \<Rightarrow> (t, st1, Unsub (chn_room cfg (nsp_name cfg) room) # ps))
           else
             (case delAll_each cfg sid others (st\<lparr>rooms := (rooms st)(room \<mapsto> left)\<rparr>) of
                (t, st1, ps) \<Rightarrow> (t, st1, Tick # ps))))"

text \<open>
  The completion callback of \<^verbatim>\<open>delAll\<close>, reached without error: it deletes
  \<^verbatim>\<open>this.sids[id]\<close> and calls \<^verbatim>\<open>fn(null)\<close>. Its other branch, for an error, needs a call
  \<^verbatim>\<open>next(err)\<close>, and the iterator makes none: the callback of a failed unsubscribe
  emits the error and returns.
\<close>

definition delAll_done :: "string \<Rightarrow> fn_arg \<Rightarrow> adapter \<Rightarrow> adapter \<times> effect list" where
  "delAll_done sid fn st = (st\<lparr>sids := (sids st)(sid := None)\<rparr>, call_fn fn None)"

text \<open>
  The pending callbacks, run in order; \<open>n\<close> is the number of items and \<open>c\<close> the count of
  completed ones.
\<close>

fun callbacks :: "bus \<Rightarrow> string \<Rightarrow> fn_arg \<Rightarrow> nat \<Rightarrow> pending list \<Rightarrow> nat \<Rightarrow> adapter \<Rightarrow> adapter \<times> effect list" where
  "callbacks bus sid fn n [] c st = (st, [])"
| "callbacks bus sid fn n (Tick # ps) c st =
     (if Suc c \<ge> n then
        (case delAll_done sid fn st of
           (st1, es1) \<Rightarrow> (case callbacks bus sid fn n ps (Suc c) st1 of (st2, es2) \<Rightarrow> (st2, es1 @ es2)))
      else callbacks bus sid fn n ps (Suc c) st)"
| "callbacks bus sid fn n (Unsub ch # ps) c st =
     (case bus (UNSUBSCRIBE ch) of
        Some e \<Rightarrow> (case callbacks bus sid fn n ps c st of (st1, es) \<Rightarrow> (st1, EmitError e # es))
      | None \<Rightarrow>
          (let st0 = st\<lparr>subscribed := subscribed st - {ch}\<rparr> in
           if Suc c \<ge> n then
             (case delAll_done sid fn st0 of
                (st1, es1) \<Rightarrow> (case callbacks bus sid fn n ps (Suc c) st1 of (st2, es2) \<Rightarrow> (st2, es1 @ es2)))
           else callbacks bus sid fn n ps (Suc c) st0))"

text \<open>The callbacks of \<^verbatim>\<open>process.nextTick\<close> run before the replies of the bus.\<close>

definition ticks_first :: "pending list \<Rightarrow> pending list" where
  "ticks_first ps = filter (\<lambda>p. p = Tick) ps @ filter (\<lambda>p. p \<noteq> Tick) ps"

fun unsub_effects :: "pending list \<Rightarrow> effect list" where
  "unsub_effects [] = []"
| "unsub_effects (Tick # ps) = unsub_effects ps"
| "unsub_effects (Unsub ch # ps) = BusUnsubscribe ch # unsub_effects ps"

text \<open>
  The result of \<^verbatim>\<open>delAll\<close>: the exception thrown out of the call, if any, the state and
  the effects.

  \<^verbatim>\<open>var rooms = this.sids[id]\<close> reads through the prototype. When \<^verbatim>\<open>this.sids\<close> has no
  own property for the id and the id is no inherited name, \<^verbatim>\<open>rooms\<close> is \<^verbatim>\<open>undefined\<close>
  and \<^verbatim>\<open>fn.bind(null, null)\<close> is evaluated whether or not \<^verbatim>\<open>fn\<close> was given. When the id
  is an inherited name, \<^verbatim>\<open>rooms\<close> is the built-in member, a function or, for
  \<^verbatim>\<open>__proto__\<close>, \<^verbatim>\<open>Object.prototype\<close>: it is truthy and has no enumerable key (the
  built-in objects being as the runtime provides them), so \<^verbatim>\<open>async.forEach\<close> calls the
  completion callback at once, as it does for an own object without keys, and
  \<^verbatim>\<open>delete self.sids[id]\<close> finds no own property.

  With an own object that has keys, the iterator starts by calling
  \<^verbatim>\<open>rooms.hasOwnProperty\<close>. When \<^verbatim>\<open>hasOwnProperty\<close> is one of the keys, that is the
  value \<^verbatim>\<open>true\<close> and no function: the call on the first item throws a \<^verbatim>\<open>TypeError\<close>,
  which leaves \<^verbatim>\<open>async.forEach\<close> and \<^verbatim>\<open>delAll\<close> before anything is changed or sent.
  Otherwise the call is outside the model when a key is an inherited name or when
  \<^verbatim>\<open>this.rooms\<close> has an own property \<^verbatim>\<open>hasOwnProperty\<close>.
\<close>

definition delAll :: "config \<Rightarrow> bus \<Rightarrow> adapter \<Rightarrow> string \<Rightarrow> fn_arg \<Rightarrow> (js_error option \<times> adapter \<times> effect list) option" where
  "delAll cfg bus st sid fn =
     (case sids st sid of
        None \<Rightarrow>
          if inherited sid then
            (case delAll_done sid fn st of (st1, es) \<Rightarrow> Some (None, st1, es))
          else
            (case fn of
               No_fn \<Rightarrow> Some (Some (TypeError ''Cannot read property bind of undefined''), st, [])
             | Fn \<Rightarrow> Some (None, st, [CallFn None None]))
      | Some rs \<Rightarrow>
          if rs = [] then (case delAll_done sid fn st of (st1, es) \<Rightarrow> Some (None, st1, es))
          else if ''hasOwnProperty'' \<in> set rs then
            Some (Some (TypeError ''rooms.hasOwnProperty is not a function''), st, [])
          else if (\<exists>r\<in>set rs. inherited r) \<or> rooms st ''hasOwnProperty'' \<noteq> None then None
          else
            (case delAll_each cfg sid rs st of
               (t, st1, ps) \<Rightarrow>
                 (case callbacks bus sid fn (length rs) (ticks_first ps) 0 st1 of
                    (st2, es) \<Rightarrow> Some (t, st2, unsub_effects ps @ es))))"

text \<open>
  The states reached from a new facade by the three operations, within the model and
  on a bus that never fails.
\<close>

inductive reachable :: "config \<Rightarrow> adapter \<Rightarrow> bool" for cfg :: config where
  reach_init: "reachable cfg (init cfg)"
| reach_add: "reachable cfg st \<Longrightarrow> add cfg bus_ok st sid room fn = Some (st1, es) \<Longrightarrow> reachable cfg st1"
| reach_del: "reachable cfg st \<Longrightarrow> del cfg bus_ok st sid room fn = Some (st1, es) \<Longrightarrow> reachable cfg st1"
| reach_delAll: "reachable cfg st \<Longrightarrow> delAll cfg bus_ok st sid fn = Some (t, st1, es) \<Longrightarrow> reachable cfg st1"

definition members :: "adapter \<Rightarrow> string \<Rightarrow> string set" where
  "members st room = set (or_empty (rooms st room))"

definition rooms_of :: "adapter \<Rightarrow> string \<Rightarrow> string set" where
  "rooms_of st sid = set (or_empty (sids st sid))"

text \<open>\<^verbatim>\<open>add(s, r)\<close> followed by \<^verbatim>\<open>del(s, r)\<close>: the state left and the effects of both.\<close>

definition add_del :: "config \<Rightarrow> bus \<Rightarrow> adapter \<Rightarrow> string \<Rightarrow> string \<Rightarrow> fn_arg \<Rightarrow> (adapter \<times> effect list) option" where
  "add_del cfg bus st sid room fn =
     (case add cfg bus st sid room fn of
        None \<Rightarrow> None
      | Some (st1, es1) \<Rightarrow>
          (case del cfg bus st1 sid room fn of
             None \<Rightarrow> None
           | Some (st2, es2) \<Rightarrow> Some (st2, es1 @ es2)))"

section \<open>The clients query\<close>

text \<open>
  What \<^verbatim>\<open>clients\<close> takes from outside the facade: the arguments \<^verbatim>\<open>(err, sids)\<close> with
  which the base adapter's \<^verbatim>\<open>clients\<close> calls back, the reply of \<^verbatim>\<open>PUBSUB NUMSUB\<close> (an
  error, or the count that \<^verbatim>\<open>subs.pop()\<close> reads), the identifier that \<^verbatim>\<open>uid2(6)\<close>
  draws for the query, and the reply to the subscription of the response channel.
\<close>

record env =
  base_clients :: "jsval \<Rightarrow> js_error option \<times> string list option"
  numsub :: "js_error + int"
  fresh_uid :: string
  subscribe_reply :: "js_error option"

text \<open>
  The variables that the closures of a fleet query share: the counter \<^verbatim>\<open>remaining\<close>,
  the array \<^verbatim>\<open>sids\<close>, and whether the message listener and the timer are still set.
\<close>

record query =
  q_muid :: string
  q_fn :: fn_arg
  q_remaining :: int
  q_sids :: "string list"
  q_listening :: bool
  q_timer :: bool

definition channel_text :: "string option \<Rightarrow> string" where
  "channel_text c = (case c of None \<Rightarrow> ''undefined'' | Some s \<Rightarrow> s)"

text \<open>
  \<^verbatim>\<open>Redis.prototype.clients\<close>, up to the end of the callback of \<^verbatim>\<open>NUMSUB\<close>. With
  \<^verbatim>\<open>remote\<close> set the local list is published to \<^verbatim>\<open>channel\<close>; otherwise the timer is
  set, the response channel subscribed, the listener installed and the request
  published.
\<close>

definition clients :: "config \<Rightarrow> env \<Rightarrow> jsval \<Rightarrow> fn_arg \<Rightarrow> string option \<Rightarrow> bool \<Rightarrow> effect list \<times> query option" where
  "clients cfg ev rms fn channel remote =
     (case base_clients ev rms of
        (Some err, _) \<Rightarrow> (LocalClients rms # call_fn fn (Some err), None)
      | (None, s) \<Rightarrow>
          (let sids0 = or_empty s in
           if remote then
             ([LocalClients rms, BusPublish (channel_text channel) [JArr sids0]], None)
           else
             (case numsub ev of
                Inl err \<Rightarrow>
                  (LocalClients rms # BusNumsub (chn_request cfg) # call_fn fn (Some err), None)
              | Inr subs \<Rightarrow>
                  (let remaining = subs - 1;
                       muid = fresh_uid ev
                   in ([LocalClients rms, BusNumsub (chn_request cfg),
                        SetTimeout (timeout cfg * remaining),
                        BusSubscribe (chn_response cfg muid),
                        AddListener,
                        BusPublish (chn_request cfg)
                          [JStr (nsp_name cfg), JStr (uid cfg), JStr muid, rms]]
                       @ (case subscribe_reply ev of None \<Rightarrow> [] | Some e \<Rightarrow> [EmitError e]),
                       Some \<lparr>q_muid = muid, q_fn = fn, q_remaining = remaining,
                             q_sids = sids0, q_listening = True, q_timer = True\<rparr>)))))"

text \<open>\<^verbatim>\<open>channel.split('#')\<close>, \<^verbatim>\<open>pieces.slice(-n)\<close> and the element \<^verbatim>\<open>[0]\<close> of an array.\<close>

fun split_hash :: "string \<Rightarrow> string list" where
  "split_hash [] = [[]]"
| "split_hash (c # cs) =
     (if c = CHR ''#'' then [] # split_hash cs
      else (case split_hash cs of [] \<Rightarrow> [[c]] | p # ps \<Rightarrow> (c # p) # ps))"

definition slice_last :: "nat \<Rightarrow> 'a list \<Rightarrow> 'a list" where
  "slice_last n xs = drop (length xs - n) xs"

definition elem0 :: "'a list \<Rightarrow> 'a option" where
  "elem0 xs = (case xs of [] \<Rightarrow> None | x # _ \<Rightarrow> Some x)"

definition field0 :: "jsval list \<Rightarrow> jsval" where
  "field0 xs = (case xs of [] \<Rightarrow> JUndefined | x # _ \<Rightarrow> x)"

text \<open>
  \<^verbatim>\<open>sids.push.apply(sids, response[0])\<close>: the items of an array are appended; for
  \<^verbatim>\<open>undefined\<close> and for an object without \<^verbatim>\<open>length\<close> nothing is appended; a string
  is no argument list and the call throws.
\<close>

definition push_apply :: "string list \<Rightarrow> jsval \<Rightarrow> string list option" where
  "push_apply acc v =
     (case v of
        JArr xs \<Rightarrow> Some (acc @ xs)
      | JStr s \<Rightarrow> None
      | _ \<Rightarrow> Some acc)"

definition call_fn_sids :: "fn_arg \<Rightarrow> string list \<Rightarrow> effect list" where
  "call_fn_sids fn acc = (case fn of No_fn \<Rightarrow> [] | Fn \<Rightarrow> [CallFn None (Some acc)])"

definition finish :: "query \<Rightarrow> query \<times> effect list" where
  "finish q =
     (q\<lparr>q_listening := False, q_timer := False\<rparr>,
      [RemoveListener, ClearTimeout] @ call_fn_sids (q_fn q) (q_sids q))"

definition onclientresponsemessage :: "query \<Rightarrow> string \<Rightarrow> jsval list \<Rightarrow> query \<times> effect list" where
  "onclientresponsemessage q channel message =
     (let pieces = split_hash channel in
      if elem0 (slice_last 1 pieces) \<noteq> Some ''clientresponse'' then (q, [])
      else if elem0 (slice_last 2 pieces) \<noteq> Some (q_muid q) then
        (q, [Debug ''ignore different client response''])
      else
        (case push_apply (q_sids q) (field0 message) of
           None \<Rightarrow> (q, [Uncaught (TypeError ''CreateListFromArrayLike called on non-object'')])
         | Some acc \<Rightarrow>
             (let q1 = q\<lparr>q_sids := acc, q_remaining := q_remaining q - 1\<rparr> in
              if q_remaining q1 = 0 then finish q1 else (q1, []))))"

text \<open>
  What happens to an outstanding query: a message arrives on the subscriber
  connection, or the timer fires. The listener sees a message only while it is
  installed, and a timer that was cleared or has fired does not fire.
\<close>

datatype event = Message string "jsval list" | Timeout

fun step :: "query \<Rightarrow> event \<Rightarrow> query \<times> effect list" where
  "step q (Message channel message) =
     (if q_listening q then onclientresponsemessage q channel message else (q, []))"
| "step q Timeout = (if q_timer q then finish q else (q, []))"

fun run_events :: "query \<Rightarrow> event list \<Rightarrow> query \<times> effect list" where
  "run_events q [] = (q, [])"
| "run_events q (e # es) =
     (case step q e of (q1, a) \<Rightarrow> (case run_events q1 es of (q2, b) \<Rightarrow> (q2, a @ b)))"

fun fn_calls :: "effect list \<Rightarrow> (js_error option \<times> string list option) list" where
  "fn_calls [] = []"
| "fn_calls (CallFn e s # es) = (e, s) # fn_calls es"
| "fn_calls (_ # es) = fn_calls es"

section \<open>Inbound messages\<close>

text \<open>
  \<^verbatim>\<open>args.shift()\<close>, the truth value of a field, its conversion to a string and the
  comparison \<^verbatim>\<open>==\<close> of a string with a field.
\<close>

definition shift :: "jsval list \<Rightarrow> jsval \<times> jsval list" where
  "shift xs = (case xs of [] \<Rightarrow> (JUndefined, []) | x # r \<Rightarrow> (x, r))"

fun join_comma :: "string list \<Rightarrow> string" where
  "join_comma [] = []"
| "join_comma [x] = x"
| "join_comma (x # y # r) = x @ '','' @ join_comma (y # r)"

fun to_text :: "jsval \<Rightarrow> string" where
  "to_text JUndefined = ''undefined''"
| "to_text (JStr s) = s"
| "to_text (JArr xs) = join_comma xs"
| "to_text (JPacket p) = ''[object Object]''"
| "to_text (JOpts os) = ''[object Object]''"

fun truthy :: "jsval \<Rightarrow> bool" where
  "truthy JUndefined = False"
| "truthy (JStr s) = (s \<noteq> [])"
| "truthy _ = True"

fun loose_eq :: "string \<Rightarrow> jsval \<Rightarrow> bool" where
  "loose_eq s JUndefined = False"
| "loose_eq s v = (s = to_text v)"

text \<open>
  \<^verbatim>\<open>if (packet && packet.nsp === undefined) packet.nsp = '/'\<close>. The assignment gives
  the attribute to a packet that lacks it; on a string it does nothing. The second
  function reads \<^verbatim>\<open>packet.nsp\<close> afterwards: an array or an options object has been
  given the attribute too, a string has none.
\<close>

fun default_nsp :: "jsval \<Rightarrow> jsval" where
  "default_nsp (JPacket p) = JPacket (case nsp p of None \<Rightarrow> p\<lparr>nsp := Some ''/''\<rparr> | Some n \<Rightarrow> p)"
| "default_nsp v = v"

fun nsp_after :: "jsval \<Rightarrow> string option" where
  "nsp_after (JPacket p) = nsp p"
| "nsp_after (JArr xs) = Some ''/''"
| "nsp_after (JOpts os) = Some ''/''"
| "nsp_after _ = None"

text \<open>
  \<^verbatim>\<open>args.push(true); this.broadcast.apply(this, args)\<close>: the parameters are the first
  three items of the list with \<^verbatim>\<open>true\<close> appended. A list that does not begin with a
  packet and options is outside the model.
\<close>

fun broadcast_apply :: "config \<Rightarrow> jsval list \<Rightarrow> effect list" where
  "broadcast_apply cfg [JPacket p, JOpts os] = broadcast cfg p os True"
| "broadcast_apply cfg (JPacket p # JOpts os # r # _) = broadcast cfg p os (truthy r)"
| "broadcast_apply cfg _ = [Ill_shaped]"

text \<open>
  \<^verbatim>\<open>args.push(null, channel, true); this.clients.apply(this, args)\<close>: with one item
  left in the list the call is \<^verbatim>\<open>clients(rooms, null, channel, true)\<close>. Other lists
  are outside the model.
\<close>

fun clients_apply :: "config \<Rightarrow> env \<Rightarrow> jsval list \<Rightarrow> string \<Rightarrow> effect list" where
  "clients_apply cfg ev [rms] channel = fst (clients cfg ev rms No_fn (Some channel) True)"
| "clients_apply cfg ev _ channel = [Ill_shaped]"

text \<open>\<^verbatim>\<open>Redis.prototype.onmessage\<close>\<close>

definition onmessage :: "config \<Rightarrow> env \<Rightarrow> string \<Rightarrow> jsval list \<Rightarrow> effect list" where
  "onmessage cfg ev channel msg =
     (let pieces = split_hash channel in
      if elem0 (slice_last 1 pieces) = Some ''clientrequest'' then
        (case shift msg of
           (a0, args1) \<Rightarrow>
             if \<not> loose_eq (nsp_name cfg) a0 then [Debug ''ignore different namespace'']
             else
               (case shift args1 of
                  (a1, args2) \<Rightarrow>
                    if loose_eq (uid cfg) a1 then [Debug ''ignore same uid'']
                    else
                      (case shift args2 of
                         (a2, args3) \<Rightarrow>
                           clients_apply cfg ev args3
                             (prefix cfg @ ''#'' @ to_text a2 @ ''#clientresponse''))))
      else
        (case shift msg of
           (a0, args1) \<Rightarrow>
             if loose_eq (uid cfg) a0 then [Debug ''ignore same uid'']
             else
               (let pkt = default_nsp (field0 args1) in
                if \<not> truthy pkt \<or> nsp_after pkt \<noteq> Some (nsp_name cfg) then
                  [Debug ''ignore different namespace'']
                else broadcast_apply cfg (pkt # tl args1))))"

section \<open>What a completed query hands to its caller\<close>

text \<open>
  The listener of a query takes a message for a response when the last piece of its
  channel is \<^verbatim>\<open>clientresponse\<close> and the piece before it is the identifier of the
  query.
\<close>

definition is_response_for :: "string \<Rightarrow> string \<Rightarrow> bool" where
  "is_response_for muid channel =
     (elem0 (slice_last 1 (split_hash channel)) = Some ''clientresponse'' \<and>
      elem0 (slice_last 2 (split_hash channel)) = Some muid)"

text \<open>
  The specification of a fleet query, in its own words. A response to the query is a
  message on the channel \<^verbatim>\<open>{prefix}#{muid}#clientresponse\<close> whose payload is
  \<^verbatim>\<open>[sids]\<close>, one list of client ids; that list is what the response brings. The
  responses heard are those that arrive before the timer fires; the query completes
  when the timer fires or when the expected number \<open>k\<close> of responses has arrived,
  whichever comes first; the caller is then called once, without error, with the local
  list followed by the lists of the responses heard until then, in the order of their
  arrival.
\<close>

fun spec_response :: "config \<Rightarrow> string \<Rightarrow> event \<Rightarrow> string list option" where
  "spec_response cfg muid (Message channel [JArr xs]) =
     (if channel = chn_response cfg muid then Some xs else None)"
| "spec_response cfg muid _ = None"

definition spec_heard :: "config \<Rightarrow> string \<Rightarrow> event list \<Rightarrow> string list list" where
  "spec_heard cfg muid evs =
     List.map_filter (spec_response cfg muid) (takeWhile (\<lambda>e. e \<noteq> Timeout) evs)"

definition spec_fn_calls :: "config \<Rightarrow> string list \<Rightarrow> string \<Rightarrow> int \<Rightarrow> event list \<Rightarrow> (js_error option \<times> string list option) list" where
  "spec_fn_calls cfg local muid k evs =
     (if Timeout \<in> set evs \<or> (1 \<le> k \<and> nat k \<le> length (spec_heard cfg muid evs)) then
        [(None, Some (local @ concat (if 1 \<le> k then take (nat k) (spec_heard cfg muid evs)
                                       else spec_heard cfg muid evs)))]
      else [])"

text \<open>
  What arrives while the query is outstanding: the timer, responses to the query in
  the wire format, and messages that the listener does not take for responses.
\<close>

fun well_formed :: "config \<Rightarrow> string \<Rightarrow> event \<Rightarrow> bool" where
  "well_formed cfg muid Timeout = True"
| "well_formed cfg muid (Message channel [JArr xs]) =
     (channel = chn_response cfg muid \<or> \<not> is_response_for muid channel)"
| "well_formed cfg muid (Message channel message) = (\<not> is_response_for muid channel)"

section \<open>The invariant of the membership index\<close>

text \<open>
  What holds of the two maps and of the subscriptions in every state that the three
  operations reach within the model on a bus that does not fail: no room is kept
  without a member; a room is among the rooms of a client exactly when the client is
  among the members of the room; the channel of a room is subscribed exactly when the
  room is kept; no client has a room twice among its keys; and no room that is kept
  has an inherited name.
\<close>

definition consistent :: "config \<Rightarrow> adapter \<Rightarrow> bool" where
  "consistent cfg st \<longleftrightarrow>
     (\<forall>room. rooms st room \<noteq> Some []) \<and>
     (\<forall>sid room. room \<in> rooms_of st sid \<longleftrightarrow> sid \<in> members st room) \<and>
     (\<forall>room. chn_room cfg (nsp_name cfg) room \<in> subscribed st \<longleftrightarrow> rooms st room \<noteq> None) \<and>
     (\<forall>sid. distinct (or_empty (sids st sid))) \<and>
     (\<forall>room. inherited room \<longrightarrow> rooms st room = None)"

text \<open>
  A room after one client has left it, the channels whose unsubscribe is pending, and
  the state that \<^verbatim>\<open>delAll\<close> leaves when every unsubscribe succeeds.
\<close>

definition after_del :: "string \<Rightarrow> string list option \<Rightarrow> string list option" where
  "after_del sid v = (if obj_delete sid (or_empty v) = [] then None else Some (obj_delete sid (or_empty v)))"

fun unsub_channels :: "pending list \<Rightarrow> string set" where
  "unsub_channels [] = {}"
| "unsub_channels (Tick # ps) = unsub_channels ps"
| "unsub_channels (Unsub ch # ps) = insert ch (unsub_channels ps)"

definition left_all :: "config \<Rightarrow> adapter \<Rightarrow> string \<Rightarrow> string list \<Rightarrow> adapter" where
  "left_all cfg st sid rs =
     st\<lparr>rooms := (\<lambda>r. if r \<in> set rs then after_del sid (rooms st r) else rooms st r),
        sids := (sids st)(sid := None),
        subscribed := subscribed st -
          {chn_room cfg (nsp_name cfg) r |r. r \<in> set rs \<and> after_del sid (rooms st r) = None}\<rparr>"

text \<open>Whether a pending callback will call \<^verbatim>\<open>next\<close>, on a given bus.\<close>

fun succeeds :: "bus \<Rightarrow> pending \<Rightarrow> bool" where
  "succeeds bus Tick = True"
| "succeeds bus (Unsub ch) = (bus (UNSUBSCRIBE ch) = None)"

text \<open>The effects of an operation other than its calls of \<^verbatim>\<open>fn\<close>.\<close>

fun is_call :: "effect \<Rightarrow> bool" where
  "is_call (CallFn e s) = True"
| "is_call _ = False"

definition without_calls :: "effect list \<Rightarrow> effect list" where
  "without_calls es = filter (\<lambda>e. \<not> is_call e) es"

section \<open>A facade to compute with\<close>

definition example_cfg :: config where
  "example_cfg = \<lparr>prefix = ''socket.io'', uid = ''abcdef'', nsp_name = ''/nsp'', timeout = 50\<rparr>"

definition example_pkt :: packet where
  "example_pkt = \<lparr>nsp = Some ''/nsp'', data = ''hi''\<rparr>"

definition example_opts :: "string list option \<Rightarrow> opts" where
  "example_opts rs = \<lparr>o_rooms = rs, o_except = [], o_flags = []\<rparr>"

text \<open>Two subscribers of the request channel; the base adapter answers with the given error.\<close>

definition example_env :: "js_error option \<Rightarrow> env" where
  "example_env err =
     \<lparr>base_clients = (\<lambda>r. (err, Some [''A1'', ''A2''])), numsub = Inr 2,
      fresh_uid = ''q1w2e3'', subscribe_reply = None\<rparr>"

definition bus_down :: bus where
  "bus_down = (\<lambda>c. Some (Failure ''connection lost''))"

text \<open>The state of the facade after \<^verbatim>\<open>add('s1', 'room')\<close> on a bus that does not fail.\<close>

definition one_member :: adapter where
  "one_member =
     \<lparr>sids = [''s1'' \<mapsto> [''room'']], rooms = [''room'' \<mapsto> [''s1'']],
      subscribed = {''socket.io#/nsp#room#'', ''socket.io#/nsp#'', ''socket.io#clientrequest''}\<rparr>"

section \<open>Lemmas\<close>

lemma published_map_publish:
  "published (map (\<lambda>r. BusPublish (f r) m) rs) = map (\<lambda>r. (f r, m)) rs"
  by (induction rs) simp_all

lemma fn_calls_append: "fn_calls (xs @ ys) = fn_calls xs @ fn_calls ys"
  by (induction xs rule: fn_calls.induct) simp_all

lemma not_inherited_examples [simp]:
  "\<not> inherited ''s1''" "\<not> inherited ''s2''" "\<not> inherited ''room''" "inherited ''toString''"
  "inherited ''hasOwnProperty''"
  by (simp_all add: inherited_def)

lemma add_one_member:
  "add example_cfg bus_ok (init example_cfg) ''s1'' ''room'' No_fn =
     Some (one_member, [BusSubscribe ''socket.io#/nsp#room#''])"
  by (simp add: add_def one_member_def init_def bus_ok_def example_cfg_def obj_set_def
      or_empty_def chn_room_def chn_nsp_def chn_request_def reply_fn_def call_fn_def Let_def)

lemma one_member_simps:
  "sids one_member = [''s1'' \<mapsto> [''room'']]"
  "rooms one_member = [''room'' \<mapsto> [''s1'']]"
  "subscribed one_member = {''socket.io#/nsp#room#'', ''socket.io#/nsp#'', ''socket.io#clientrequest''}"
  by (simp_all add: one_member_def)

subsection \<open>Channels and their pieces\<close>

lemma split_hash_not_empty: "split_hash xs \<noteq> []"
  by (induction xs) (auto split: list.splits)

lemma split_hash_plain: "CHR ''#'' \<notin> set xs \<Longrightarrow> split_hash xs = [xs]"
  by (induction xs) auto

lemma split_hash_append: "split_hash (xs @ CHR ''#'' # ys) = split_hash xs @ split_hash ys"
proof (induction xs)
  case Nil
  then show ?case by simp
next
  case (Cons c xs)
  obtain p ps where "split_hash xs = p # ps"
    using split_hash_not_empty [of xs] by (cases "split_hash xs") auto
  with Cons show ?case by simp
qed

lemma response_channel_accepted:
  assumes "CHR ''#'' \<notin> set muid"
  shows "is_response_for muid (chn_response cfg muid)"
proof -
  have "chn_response cfg muid = prefix cfg @ CHR ''#'' # (muid @ CHR ''#'' # ''clientresponse'')"
    by (simp add: chn_response_def)
  then have "split_hash (chn_response cfg muid) =
      split_hash (prefix cfg) @ [muid, ''clientresponse'']"
    using assms by (simp only: split_hash_append) (simp add: split_hash_plain)
  then show ?thesis
    by (simp add: is_response_for_def slice_last_def elem0_def)
qed

subsection \<open>The run of a query\<close>

lemma run_events_finished:
  "\<not> q_listening q \<Longrightarrow> \<not> q_timer q \<Longrightarrow> run_events q evs = (q, [])"
proof (induction evs)
  case Nil
  then show ?case by simp
next
  case (Cons e evs)
  then show ?case by (cases e) simp_all
qed

lemma finish_calls:
  "q_fn q = Fn \<Longrightarrow> finish q = (q1, es) \<Longrightarrow>
     fn_calls es = [(None, Some (q_sids q))] \<and> \<not> q_listening q1 \<and> \<not> q_timer q1"
  by (auto simp: finish_def call_fn_sids_def)

lemma step_other_message:
  "\<not> is_response_for (q_muid q) channel \<Longrightarrow>
     fst (onclientresponsemessage q channel message) = q \<and>
     fn_calls (snd (onclientresponsemessage q channel message)) = []"
  by (auto simp: onclientresponsemessage_def is_response_for_def Let_def)

lemma step_response:
  "is_response_for (q_muid q) channel \<Longrightarrow>
     onclientresponsemessage q channel [JArr xs] =
       (if q_remaining q = 1 then finish (q\<lparr>q_sids := q_sids q @ xs, q_remaining := 0\<rparr>)
        else (q\<lparr>q_sids := q_sids q @ xs, q_remaining := q_remaining q - 1\<rparr>, []))"
  by (auto simp: onclientresponsemessage_def is_response_for_def Let_def push_apply_def field0_def)

lemma heard_Timeout [simp]: "spec_heard cfg m (Timeout # evs) = []"
  by (simp add: spec_heard_def)

lemma heard_Message [simp]:
  "spec_heard cfg m (Message c msg # evs) =
     (case spec_response cfg m (Message c msg) of
        None \<Rightarrow> spec_heard cfg m evs
      | Some xs \<Rightarrow> xs # spec_heard cfg m evs)"
  by (simp add: spec_heard_def split: option.splits)

lemma spec_response_other:
  "CHR ''#'' \<notin> set m \<Longrightarrow> \<not> is_response_for m c \<Longrightarrow> spec_response cfg m (Message c msg) = None"
  using response_channel_accepted [of m cfg]
  by (cases "(cfg, m, Message c msg)" rule: spec_response.cases) auto

lemma well_formed_response:
  "well_formed cfg m (Message c msg) \<Longrightarrow> is_response_for m c \<Longrightarrow>
     \<exists>xs. msg = [JArr xs] \<and> c = chn_response cfg m"
  by (cases "(cfg, m, Message c msg)" rule: well_formed.cases) auto

lemma run_events_calls:
  "q_listening q \<Longrightarrow> q_timer q \<Longrightarrow> q_fn q = Fn \<Longrightarrow> CHR ''#'' \<notin> set (q_muid q) \<Longrightarrow>
   \<forall>e\<in>set evs. well_formed cfg (q_muid q) e \<Longrightarrow>
     fn_calls (snd (run_events q evs)) =
       spec_fn_calls cfg (q_sids q) (q_muid q) (q_remaining q) evs"
proof (induction evs arbitrary: q)
  case Nil
  then show ?case by (simp add: spec_fn_calls_def spec_heard_def map_filter_simps)
next
  case (Cons e evs)
  show ?case
  proof (cases e)
    case Timeout
    obtain q1 es where f: "finish q = (q1, es)" by (cases "finish q")
    from finish_calls [OF Cons.prems(3) f] run_events_finished [of q1 evs]
    show ?thesis using Cons.prems Timeout f
      by (simp add: spec_fn_calls_def fn_calls_append)
  next
    case (Message c msg)
    show ?thesis
    proof (cases "is_response_for (q_muid q) c")
      case False
      have none: "spec_response cfg (q_muid q) (Message c msg) = None"
        using spec_response_other [OF Cons.prems(4) False] .
      from step_other_message [OF False, of msg]
      have "run_events q (e # evs) =
              (fst (run_events q evs), snd (onclientresponsemessage q c msg) @ snd (run_events q evs))"
        using Message Cons.prems(1)
        by (cases "onclientresponsemessage q c msg"; cases "run_events q evs") auto
      with step_other_message [OF False, of msg] Cons.IH [of q] Cons.prems none Message
      show ?thesis
        by (simp add: fn_calls_append spec_fn_calls_def)
    next
      case True
      from Cons.prems(5) Message have "well_formed cfg (q_muid q) (Message c msg)" by simp
      from well_formed_response [OF this True]
      obtain xs where msg: "msg = [JArr xs]" and c: "c = chn_response cfg (q_muid q)"
        by auto
      have some: "spec_response cfg (q_muid q) (Message c msg) = Some xs"
        using msg c by simp
      let ?q1 = "q\<lparr>q_sids := q_sids q @ xs, q_remaining := q_remaining q - 1\<rparr>"
      show ?thesis
      proof (cases "q_remaining q = 1")
        case one: True
        obtain q2 es where f: "finish (q\<lparr>q_sids := q_sids q @ xs, q_remaining := 0\<rparr>) = (q2, es)"
          by (cases "finish (q\<lparr>q_sids := q_sids q @ xs, q_remaining := 0\<rparr>)")
        have fnq: "q_fn (q\<lparr>q_sids := q_sids q @ xs, q_remaining := 0\<rparr>) = Fn"
          using Cons.prems(3) by simp
        from finish_calls [OF fnq f] run_events_finished [of q2 evs]
        show ?thesis
          using Message Cons.prems(1) step_response [OF True, of xs] one f some msg
          by (simp add: fn_calls_append spec_fn_calls_def)
      next
        case False
        have run: "run_events q (e # evs) = run_events ?q1 evs"
          using Message Cons.prems(1) step_response [OF True, of xs] False msg
          by (cases "run_events ?q1 evs") simp
        have ih: "fn_calls (snd (run_events ?q1 evs)) =
                    spec_fn_calls cfg (q_sids q @ xs) (q_muid q) (q_remaining q - 1) evs"
          using Cons.IH [of ?q1] Cons.prems by simp
        have "spec_fn_calls cfg (q_sids q @ xs) (q_muid q) (q_remaining q - 1) evs =
              spec_fn_calls cfg (q_sids q) (q_muid q) (q_remaining q) (e # evs)"
        proof (cases "2 \<le> q_remaining q")
          case True
          then have n: "nat (q_remaining q) = Suc (nat (q_remaining q - 1))" by simp
          show ?thesis
            using True Message some
            by (simp add: spec_fn_calls_def n del: nat_diff_distrib)
        next
          case small: False
          with False have "q_remaining q \<le> 0" by simp
          then show ?thesis
            using Message some
            by (simp add: spec_fn_calls_def)
        qed
        with run ih show ?thesis by simp
      qed
    qed
  qed
qed

subsection \<open>Channels\<close>

lemma chn_room_inj [simp]: "chn_room cfg n r = chn_room cfg n r' \<longleftrightarrow> r = r'"
  by (simp add: chn_room_def)

lemma chn_room_not_nsp [simp]: "chn_room cfg n r \<noteq> chn_nsp cfg n"
  by (simp add: chn_room_def chn_nsp_def)

lemma chn_room_not_request [simp]: "chn_room cfg n r \<noteq> chn_request cfg"
proof
  assume "chn_room cfg n r = chn_request cfg"
  then have "n @ ''#'' @ r @ ''#'' = ''clientrequest''"
    by (simp add: chn_room_def chn_request_def)
  then have "last (n @ ''#'' @ r @ ''#'') = last ''clientrequest''"
    by (rule arg_cong)
  then show False by simp
qed

subsection \<open>The operations within the model\<close>

lemma or_empty_simps [simp]: "or_empty None = []" "or_empty (Some ks) = ks"
  by (simp_all add: or_empty_def)

lemma add_Some:
  "add cfg bus st sid room fn = Some (st1, es) \<longleftrightarrow>
     \<not> inherited sid \<and> \<not> inherited room \<and>
     st1 = st\<lparr>sids := (sids st)(sid \<mapsto> obj_set room (or_empty (sids st sid))),
              rooms := (rooms st)(room \<mapsto> obj_set sid (or_empty (rooms st room))),
              subscribed := (if bus (SUBSCRIBE (chn_room cfg (nsp_name cfg) room)) = None
                             then insert (chn_room cfg (nsp_name cfg) room) (subscribed st)
                             else subscribed st)\<rparr> \<and>
     es = BusSubscribe (chn_room cfg (nsp_name cfg) room) #
          reply_fn (bus (SUBSCRIBE (chn_room cfg (nsp_name cfg) room))) fn"
  by (auto simp: add_def Let_def)

lemma del_Some:
  "del cfg bus st sid room fn = Some (st1, es) \<longleftrightarrow>
     \<not> inherited sid \<and> \<not> inherited room \<and> rooms st ''hasOwnProperty'' = None \<and>
     (if obj_delete sid (or_empty (rooms st room)) = [] then
        st1 = st\<lparr>sids := (sids st)(sid \<mapsto> obj_delete room (or_empty (sids st sid))),
                 rooms := (rooms st)(room := None),
                 subscribed := (if bus (UNSUBSCRIBE (chn_room cfg (nsp_name cfg) room)) = None
                                then subscribed st - {chn_room cfg (nsp_name cfg) room}
                                else subscribed st)\<rparr> \<and>
        es = BusUnsubscribe (chn_room cfg (nsp_name cfg) room) #
             reply_fn (bus (UNSUBSCRIBE (chn_room cfg (nsp_name cfg) room))) fn
      else
        st1 = st\<lparr>sids := (sids st)(sid \<mapsto> obj_delete room (or_empty (sids st sid))),
                 rooms := (rooms st)(room \<mapsto> obj_delete sid (or_empty (rooms st room)))\<rparr> \<and>
        es = call_fn fn None)"
  by (auto simp: del_def Let_def)

subsection \<open>The invariant is kept\<close>

lemma consistent_init: "consistent cfg (init cfg)"
  by (simp add: consistent_def init_def rooms_of_def members_def or_empty_def)

lemma consistent_plain:
  assumes "consistent cfg st"
  shows "rooms st ''hasOwnProperty'' = None"
    and "room \<in> rooms_of st sid \<Longrightarrow> \<not> inherited room"
proof -
  from assms have i5: "\<And>r. inherited r \<Longrightarrow> rooms st r = None"
    and i2: "\<And>s r. r \<in> rooms_of st s \<longleftrightarrow> s \<in> members st r"
    by (simp_all add: consistent_def)
  show "rooms st ''hasOwnProperty'' = None"
    by (rule i5) (simp add: inherited_def)
  show "\<not> inherited room" if "room \<in> rooms_of st sid"
  proof
    assume "inherited room"
    then have "members st room = {}" by (simp add: i5 members_def)
    with that i2 show False by simp
  qed
qed

lemma consistent_add:
  assumes "consistent cfg st" and "add cfg bus_ok st sid room fn = Some (st1, es)"
  shows "consistent cfg st1"
  using assms
  unfolding consistent_def add_Some bus_ok_def rooms_of_def members_def
  by (auto simp: obj_set_def or_empty_def split: option.splits if_splits)

lemma consistent_del:
  assumes "consistent cfg st" and "del cfg bus_ok st sid room fn = Some (st1, es)"
  shows "consistent cfg st1"
  using assms
  unfolding consistent_def del_Some bus_ok_def rooms_of_def members_def
  by (auto simp: obj_delete_def or_empty_def filter_empty_conv split: option.splits if_splits)

subsection \<open>Leaving all rooms on a bus that does not fail\<close>

lemma delAll_each_ok:
  "distinct rs \<Longrightarrow> \<forall>r\<in>set rs. sid \<in> set (or_empty (rooms st r)) \<Longrightarrow>
     delAll_each cfg sid rs st =
       (None,
        st\<lparr>rooms := (\<lambda>r. if r \<in> set rs then after_del sid (rooms st r) else rooms st r)\<rparr>,
        map (\<lambda>r. if after_del sid (rooms st r) = None
                   then Unsub (chn_room cfg (nsp_name cfg) r) else Tick) rs)"
proof (induction rs arbitrary: st)
  case Nil
  then show ?case by simp
next
  case (Cons room others)
  from Cons.prems obtain ms where ms: "rooms st room = Some ms"
    by (cases "rooms st room") (auto simp: or_empty_def)
  let ?st1 = "st\<lparr>rooms := (rooms st)(room := after_del sid (Some ms))\<rparr>"
  have same: "\<And>r. r \<in> set others \<Longrightarrow> rooms ?st1 r = rooms st r"
    using Cons.prems(1) by auto
  have ih: "delAll_each cfg sid others ?st1 =
       (None,
        ?st1\<lparr>rooms := (\<lambda>r. if r \<in> set others then after_del sid (rooms ?st1 r) else rooms ?st1 r)\<rparr>,
        map (\<lambda>r. if after_del sid (rooms ?st1 r) = None
                   then Unsub (chn_room cfg (nsp_name cfg) r) else Tick) others)"
  proof (rule Cons.IH)
    show "distinct others" using Cons.prems(1) by simp
    show "\<forall>r\<in>set others. sid \<in> set (or_empty (rooms ?st1 r))"
      using Cons.prems(2) same by simp
  qed
  have st: "?st1\<lparr>rooms := (\<lambda>r. if r \<in> set others then after_del sid (rooms ?st1 r) else rooms ?st1 r)\<rparr> =
        st\<lparr>rooms := (\<lambda>r. if r \<in> set (room # others) then after_del sid (rooms st r) else rooms st r)\<rparr>"
    using Cons.prems(1) ms by (auto simp: fun_eq_iff)
  have ps: "map (\<lambda>r. if after_del sid (rooms ?st1 r) = None
                   then Unsub (chn_room cfg (nsp_name cfg) r) else Tick) others =
            map (\<lambda>r. if after_del sid (rooms st r) = None
                   then Unsub (chn_room cfg (nsp_name cfg) r) else Tick) others"
    using same by (intro map_cong) simp_all
  have unfold: "delAll_each cfg sid (room # others) st =
      (case delAll_each cfg sid others ?st1 of
         (t, st1, ps) \<Rightarrow>
           (t, st1, (if after_del sid (rooms st room) = None
                     then Unsub (chn_room cfg (nsp_name cfg) room) else Tick) # ps))"
    using ms by (simp add: after_del_def or_empty_def Let_def)
  show ?case
    unfolding unfold ih st ps by simp
qed

lemma unsub_channels_append: "unsub_channels (xs @ ys) = unsub_channels xs \<union> unsub_channels ys"
  by (induction xs rule: unsub_channels.induct) simp_all

lemma unsub_channels_filter:
  "unsub_channels (filter (\<lambda>p. p = Tick) ps) = {}"
  "unsub_channels (filter (\<lambda>p. p \<noteq> Tick) ps) = unsub_channels ps"
  by (induction ps rule: unsub_channels.induct) simp_all

lemma unsub_channels_ticks_first: "unsub_channels (ticks_first ps) = unsub_channels ps"
  by (simp add: ticks_first_def unsub_channels_append unsub_channels_filter)

lemma length_ticks_first: "length (ticks_first ps) = length ps"
  by (simp add: ticks_first_def sum_length_filter_compl)

lemma set_unsub_effects: "set (unsub_effects ps) = BusUnsubscribe ` unsub_channels ps"
  by (induction ps rule: unsub_effects.induct) simp_all

lemma callbacks_ok:
  "c + length ps = n \<Longrightarrow> ps \<noteq> [] \<Longrightarrow>
     callbacks bus_ok sid fn n ps c st =
       (st\<lparr>sids := (sids st)(sid := None), subscribed := subscribed st - unsub_channels ps\<rparr>,
        call_fn fn None)"
proof (induction ps arbitrary: c st)
  case Nil
  then show ?case by simp
next
  case (Cons p ps)
  show ?case
  proof (cases "ps = []")
    case True
    with Cons.prems have "Suc c = n" by simp
    then show ?thesis
      using True by (cases p; cases st) (auto simp: bus_ok_def delAll_done_def Let_def fun_eq_iff)
  next
    case False
    then have "0 < length ps" by simp
    with Cons.prems have less: "\<not> n \<le> Suc c" and next_: "Suc c + length ps = n" by auto
    show ?thesis
    proof (cases p)
      case Tick
      then show ?thesis
        using less Cons.IH [OF next_ False, of st] by simp
    next
      case (Unsub ch)
      let ?st0 = "st\<lparr>subscribed := subscribed st - {ch}\<rparr>"
      have "callbacks bus_ok sid fn n (p # ps) c st = callbacks bus_ok sid fn n ps (Suc c) ?st0"
        using Unsub less by (simp add: bus_ok_def Let_def)
      also have "\<dots> = (?st0\<lparr>sids := (sids ?st0)(sid := None),
                               subscribed := subscribed ?st0 - unsub_channels ps\<rparr>,
                         call_fn fn None)"
        by (rule Cons.IH [OF next_ False])
      also have "subscribed ?st0 - unsub_channels ps = subscribed st - unsub_channels (p # ps)"
        using Unsub by auto
      finally show ?thesis by simp
    qed
  qed
qed

lemma unsub_channels_map:
  "unsub_channels (map (\<lambda>r. if P r then Unsub (f r) else Tick) rs) = {f r |r. r \<in> set rs \<and> P r}"
  by (induction rs) auto

lemma set_obj_delete: "set (obj_delete sid ks) = set ks - {sid}"
  by (auto simp: obj_delete_def)

lemma set_after_del: "set (or_empty (after_del sid v)) = set (or_empty v) - {sid}"
proof (cases "obj_delete sid (or_empty v) = []")
  case True
  have "set (or_empty v) - {sid} = set (obj_delete sid (or_empty v))"
    by (simp add: set_obj_delete)
  also have "\<dots> = {}"
    using True by simp
  finally show ?thesis
    using True by (simp add: after_del_def)
next
  case False
  then show ?thesis
    by (simp add: after_del_def set_obj_delete)
qed

lemma after_del_None: "after_del sid v = None \<longleftrightarrow> set (or_empty v) - {sid} = {}"
proof -
  have "after_del sid v = None \<longleftrightarrow> set (obj_delete sid (or_empty v)) = {}"
    by (simp add: after_del_def)
  also have "set (obj_delete sid (or_empty v)) = set (or_empty v) - {sid}"
    by (rule set_obj_delete)
  finally show ?thesis .
qed

lemma after_del_not_empty: "after_del sid v \<noteq> Some []"
  by (simp add: after_del_def)

lemma consistent_keys:
  assumes "consistent cfg st" and "sids st sid = Some rs"
  shows "distinct rs" and "\<forall>r\<in>set rs. sid \<in> set (or_empty (rooms st r))"
proof -
  from assms(1) have "distinct (or_empty (sids st sid))"
    by (simp add: consistent_def)
  with assms(2) show "distinct rs" by (simp add: or_empty_def)
  from assms(1) have "\<And>r. r \<in> rooms_of st sid \<longleftrightarrow> sid \<in> members st r"
    by (simp add: consistent_def)
  with assms(2) show "\<forall>r\<in>set rs. sid \<in> set (or_empty (rooms st r))"
    by (simp add: rooms_of_def members_def or_empty_def)
qed

lemma delAll_in_model:
  assumes "consistent cfg st" and "sids st sid = Some rs"
  shows "''hasOwnProperty'' \<notin> set rs"
    and "\<not> ((\<exists>r\<in>set rs. inherited r) \<or> rooms st ''hasOwnProperty'' \<noteq> None)"
proof -
  have plain: "\<not> inherited r" if "r \<in> set rs" for r
    using consistent_plain(2) [OF assms(1), of r sid] that assms(2) by (simp add: rooms_of_def)
  from plain [of "''hasOwnProperty''"] show "''hasOwnProperty'' \<notin> set rs"
    by auto
  from plain consistent_plain(1) [OF assms(1)]
  show "\<not> ((\<exists>r\<in>set rs. inherited r) \<or> rooms st ''hasOwnProperty'' \<noteq> None)"
    by auto
qed

lemma delAll_ok:
  assumes "consistent cfg st" and "sids st sid = Some rs"
  shows "delAll cfg bus_ok st sid fn =
           Some (None, left_all cfg st sid rs,
                 unsub_effects (map (\<lambda>r. if after_del sid (rooms st r) = None
                                           then Unsub (chn_room cfg (nsp_name cfg) r) else Tick) rs)
                 @ call_fn fn None)"
proof (cases "rs = []")
  case True
  then show ?thesis
    using assms(2) by (simp add: delAll_def delAll_done_def left_all_def)
next
  case False
  let ?ps = "map (\<lambda>r. if after_del sid (rooms st r) = None
                        then Unsub (chn_room cfg (nsp_name cfg) r) else Tick) rs"
  let ?st1 = "st\<lparr>rooms := (\<lambda>r. if r \<in> set rs then after_del sid (rooms st r) else rooms st r)\<rparr>"
  have each: "delAll_each cfg sid rs st = (None, ?st1, ?ps)"
    using consistent_keys [OF assms] by (rule delAll_each_ok)
  have "length (ticks_first ?ps) = length rs"
    by (simp add: length_ticks_first)
  moreover from this False have "ticks_first ?ps \<noteq> []"
    by (metis length_0_conv)
  ultimately have "callbacks bus_ok sid fn (length rs) (ticks_first ?ps) 0 ?st1 =
      (?st1\<lparr>sids := (sids ?st1)(sid := None),
            subscribed := subscribed ?st1 - unsub_channels (ticks_first ?ps)\<rparr>, call_fn fn None)"
    by (intro callbacks_ok) simp_all
  then have "callbacks bus_ok sid fn (length rs) (ticks_first ?ps) 0 ?st1 =
      (left_all cfg st sid rs, call_fn fn None)"
    by (simp add: unsub_channels_ticks_first unsub_channels_map left_all_def)
  then show ?thesis
    using assms(2) False each delAll_in_model [OF assms] by (simp add: delAll_def)
qed


lemma delAll_no_entry:
  assumes "sids st sid = None"
  shows "delAll cfg bus st sid fn =
           (if inherited sid then Some (None, st, call_fn fn None)
            else (case fn of
                    No_fn \<Rightarrow> Some (Some (TypeError ''Cannot read property bind of undefined''), st, [])
                  | Fn \<Rightarrow> Some (None, st, [CallFn None None])))"
proof -
  have "(sids st)(sid := None) = sids st"
    using assms by (simp add: fun_eq_iff)
  then show ?thesis
    using assms by (simp add: delAll_def delAll_done_def)
qed

lemma members_left_all:
  assumes "consistent cfg st" and "sids st sid = Some rs"
  shows "members (left_all cfg st sid rs) r = members st r - {sid}"
proof (cases "r \<in> set rs")
  case True
  then show ?thesis
    by (simp add: members_def left_all_def set_after_del)
next
  case False
  from assms(1) have "r \<in> rooms_of st sid \<longleftrightarrow> sid \<in> members st r"
    by (simp add: consistent_def)
  with False assms(2) have "sid \<notin> members st r"
    by (simp add: rooms_of_def or_empty_def)
  with False show ?thesis
    by (simp add: members_def left_all_def)
qed

lemma rooms_of_left_all:
  "rooms_of (left_all cfg st sid rs) s = (if s = sid then {} else rooms_of st s)"
  by (simp add: rooms_of_def left_all_def or_empty_def)

lemma consistent_left_all:
  assumes "consistent cfg st" and "sids st sid = Some rs"
  shows "consistent cfg (left_all cfg st sid rs)"
proof -
  let ?st = "left_all cfg st sid rs"
  have i1: "\<forall>room. rooms ?st room \<noteq> Some []"
    using assms(1) by (simp add: left_all_def after_del_not_empty consistent_def)
  have i2: "\<forall>s room. room \<in> rooms_of ?st s \<longleftrightarrow> s \<in> members ?st room"
    using assms(1) by (auto simp: members_left_all [OF assms] rooms_of_left_all consistent_def)
  have i3: "\<forall>room. chn_room cfg (nsp_name cfg) room \<in> subscribed ?st \<longleftrightarrow> rooms ?st room \<noteq> None"
  proof
    fix room
    have sub: "chn_room cfg (nsp_name cfg) room \<in> subscribed st \<longleftrightarrow> rooms st room \<noteq> None"
      using assms(1) by (simp add: consistent_def)
    show "chn_room cfg (nsp_name cfg) room \<in> subscribed ?st \<longleftrightarrow> rooms ?st room \<noteq> None"
    proof (cases "room \<in> set rs")
      case True
      with consistent_keys(2) [OF assms] have "sid \<in> set (or_empty (rooms st room))"
        by blast
      then have "rooms st room \<noteq> None"
        by (cases "rooms st room") (simp_all add: or_empty_def)
      with sub True show ?thesis
        by (auto simp: left_all_def)
    next
      case False
      with sub show ?thesis
        by (auto simp: left_all_def)
    qed
  qed
  have i4: "\<forall>s. distinct (or_empty (sids ?st s))"
    using assms(1) by (simp add: left_all_def consistent_def or_empty_def)
  have i5: "\<forall>room. inherited room \<longrightarrow> rooms ?st room = None"
    using assms(1) by (simp add: left_all_def consistent_def after_del_def obj_delete_def)
  from i1 i2 i3 i4 i5 show ?thesis
    unfolding consistent_def by blast
qed

lemma consistent_delAll:
  assumes "consistent cfg st" and "delAll cfg bus_ok st sid fn = Some (t, st1, es)"
  shows "consistent cfg st1"
proof (cases "sids st sid")
  case None
  with assms(2) have "st1 = st"
    by (simp add: delAll_no_entry split: if_splits fn_arg.splits)
  with assms(1) show ?thesis by simp
next
  case (Some rs)
  with assms(2) have "st1 = left_all cfg st sid rs"
    by (simp add: delAll_ok [OF assms(1) Some])
  then show ?thesis
    using consistent_left_all [OF assms(1) Some] by simp
qed

lemma reachable_consistent: "reachable cfg st \<Longrightarrow> consistent cfg st"
  by (induction rule: reachable.induct)
     (auto intro: consistent_init consistent_add consistent_del consistent_delAll)

subsection \<open>Reachable states and the commands sent\<close>

lemma obj_delete_obj_set: "k \<notin> set ks \<Longrightarrow> obj_delete k (obj_set k ks) = ks"
  by (auto simp: obj_delete_def obj_set_def filter_id_conv)

lemma reachable_one_member: "reachable example_cfg one_member"
  by (rule reach_add [OF reach_init add_one_member])

lemma no_unsubscribe_in_reply:
  "BusUnsubscribe c \<notin> set (call_fn fn e)" "BusUnsubscribe c \<notin> set (reply_fn r fn)"
  by (auto simp: call_fn_def reply_fn_def split: fn_arg.splits option.splits)

lemma del_in_model:
  "\<not> inherited sid \<Longrightarrow> \<not> inherited room \<Longrightarrow> rooms st ''hasOwnProperty'' = None \<Longrightarrow>
     \<exists>st1 es. del cfg bus st sid room fn = Some (st1, es)"
  by (simp add: del_def Let_def)

lemma del_unsubscribes:
  assumes "del cfg bus st sid r fn = Some (st1, es)"
  shows "BusUnsubscribe (chn_room cfg (nsp_name cfg) room) \<in> set es \<longleftrightarrow>
           room = r \<and> members st1 room = {}"
proof (cases "obj_delete sid (or_empty (rooms st r)) = []")
  case True
  with assms show ?thesis
    by (auto simp: del_Some members_def no_unsubscribe_in_reply)
next
  case False
  with assms show ?thesis
    by (auto simp: del_Some members_def no_unsubscribe_in_reply)
qed

lemma delAll_unsubscribes:
  assumes "consistent cfg st" and "delAll cfg bus_ok st sid fn = Some (t, st1, es)"
  shows "BusUnsubscribe (chn_room cfg (nsp_name cfg) room) \<in> set es \<longleftrightarrow>
           room \<in> rooms_of st sid \<and> members st1 room = {}"
proof (cases "sids st sid")
  case None
  with assms(2) show ?thesis
    by (auto simp: delAll_no_entry rooms_of_def no_unsubscribe_in_reply
        split: if_splits fn_arg.splits)
next
  case (Some rs)
  have "members st room - {sid} = {} \<longleftrightarrow> after_del sid (rooms st room) = None"
    by (simp add: after_del_None members_def)
  then show ?thesis
    using Some assms(2)
    by (auto simp: delAll_ok [OF assms(1) Some] members_left_all [OF assms(1) Some] rooms_of_def
        set_unsub_effects unsub_channels_map no_unsubscribe_in_reply)
qed

subsection \<open>Leaving all rooms when an unsubscribe fails\<close>

lemma fn_calls_unsub_effects: "fn_calls (unsub_effects ps) = []"
  by (induction ps rule: unsub_effects.induct) simp_all

lemma callbacks_stuck:
  "c + length (filter (succeeds bus) ps) < n \<Longrightarrow>
     fn_calls (snd (callbacks bus sid fn n ps c st)) = [] \<and>
     sids (fst (callbacks bus sid fn n ps c st)) = sids st"
proof (induction ps arbitrary: c st)
  case Nil
  then show ?case by simp
next
  case (Cons p ps)
  show ?case
  proof (cases p)
    case Tick
    with Cons.prems have "Suc c + length (filter (succeeds bus) ps) < n" by simp
    from Cons.IH [OF this, of st] Tick Cons.prems show ?thesis
      by simp
  next
    case (Unsub ch)
    show ?thesis
    proof (cases "bus (UNSUBSCRIBE ch)")
      case None
      with Unsub Cons.prems have "Suc c + length (filter (succeeds bus) ps) < n" by simp
      from Cons.IH [OF this, of "st\<lparr>subscribed := subscribed st - {ch}\<rparr>"] Unsub None Cons.prems
      show ?thesis by (simp add: Let_def)
    next
      case (Some e)
      with Unsub Cons.prems have "c + length (filter (succeeds bus) ps) < n" by simp
      from Cons.IH [OF this, of st] Unsub Some show ?thesis
        by (cases "callbacks bus sid fn n ps c st") simp
    qed
  qed
qed

lemma delAll_each_pending:
  "delAll_each cfg sid rs st = (t, st1, ps) \<Longrightarrow> length ps \<le> length rs \<and> sids st1 = sids st"
proof (induction rs arbitrary: st t st1 ps)
  case Nil
  then show ?case by simp
next
  case (Cons room others)
  show ?case
  proof (cases "rooms st room")
    case None
    with Cons.prems show ?thesis by auto
  next
    case (Some ms)
    with Cons.prems Cons.IH show ?thesis
      by (fastforce simp: Let_def split: if_splits prod.splits)
  qed
qed

lemma delAll_failed_unsubscribe:
  assumes "sids st sid = Some rs"
    and "delAll_each cfg sid rs st = (t, st1, ps)"
    and "Unsub ch \<in> set ps"
    and "bus (UNSUBSCRIBE ch) = Some e"
    and "delAll cfg bus st sid fn = Some (t', st2, es)"
  shows "fn_calls es = [] \<and> sids st2 sid = Some rs"
proof -
  from delAll_each_pending [OF assms(2)] have len: "length ps \<le> length rs" and same: "sids st1 = sids st"
    by simp_all
  from assms(3) len have ne: "rs \<noteq> []" by auto
  have "\<not> succeeds bus (Unsub ch)"
    using assms(4) by simp
  with assms(3) have "Unsub ch \<in> set (ticks_first ps) \<and> \<not> succeeds bus (Unsub ch)"
    by (auto simp: ticks_first_def)
  then have "length (filter (succeeds bus) (ticks_first ps)) < length (ticks_first ps)"
    by (intro length_filter_less) auto
  also have "length (ticks_first ps) \<le> length rs"
    using len by (simp add: length_ticks_first)
  finally have "0 + length (filter (succeeds bus) (ticks_first ps)) < length rs"
    by simp
  from callbacks_stuck [OF this, of sid fn st1] show ?thesis
    using assms(1,2,5) ne same
    by (cases "callbacks bus sid fn (length rs) (ticks_first ps) 0 st1")
       (auto simp: delAll_def fn_calls_append fn_calls_unsub_effects split: if_splits)
qed

subsection \<open>The callback is optional\<close>

lemma without_calls_append: "without_calls (xs @ ys) = without_calls xs @ without_calls ys"
  by (simp add: without_calls_def)


lemma delAll_done_optional:
  "delAll_done sid No_fn st = (fst (delAll_done sid Fn st), without_calls (snd (delAll_done sid Fn st)))"
  by (simp add: delAll_done_def call_fn_def without_calls_def)



section \<open>The claims\<close>

subsection \<open>Broadcast\<close>

text \<open>
  C1, as written, asks for one publish to the channel of the namespace when
  \<^verbatim>\<open>opts.rooms\<close> is an empty sequence. On the facade of the example, a broadcast that is
  not remote and has \<^verbatim>\<open>rooms = []\<close> publishes nothing: the test \<^verbatim>\<open>if (opts.rooms)\<close>
  holds for the empty array, and \<^verbatim>\<open>forEach\<close> has no room to publish to.
\<close>

theorem C1_empty_rooms_counterexample:
  "published (broadcast example_cfg example_pkt (example_opts (Some [])) False) = []"
  by (simp add: broadcast_def example_opts_def)

text \<open>
  C1, amended: for every call \<^verbatim>\<open>broadcast(packet, opts, remote)\<close> with \<^verbatim>\<open>remote\<close> false,
  when \<^verbatim>\<open>opts.rooms\<close> is absent exactly one message is published, to the channel
  \<^verbatim>\<open>{prefix}#{packet.nsp}#\<close> of the namespace; when \<^verbatim>\<open>opts.rooms\<close> is a non-empty
  sequence exactly one message is published for each listed room, in order, to the
  channel \<^verbatim>\<open>{prefix}#{packet.nsp}#{room}#\<close> of the room. Each message is
  \<^verbatim>\<open>[uid, packet, opts]\<close>.
\<close>

theorem C1_broadcast_publishes:
  "(o_rooms os = None \<longrightarrow>
      published (broadcast cfg pkt os False) =
        [(chn_nsp cfg (nsp_text pkt), [JStr (uid cfg), JPacket pkt, JOpts os])]) \<and>
   (\<forall>rs. o_rooms os = Some rs \<and> rs \<noteq> [] \<longrightarrow>
      published (broadcast cfg pkt os False) =
        map (\<lambda>room. (chn_room cfg (nsp_text pkt) room, [JStr (uid cfg), JPacket pkt, JOpts os])) rs)"
  by (simp add: broadcast_def published_map_publish)

theorem C1_broadcast_publishes_witness:
  "published (broadcast example_cfg example_pkt (example_opts None) False) =
     [(''socket.io#/nsp#'',
       [JStr ''abcdef'', JPacket example_pkt, JOpts (example_opts None)])] \<and>
   published (broadcast example_cfg example_pkt (example_opts (Some [''r1'', ''r2''])) False) =
     [(''socket.io#/nsp#r1#'',
       [JStr ''abcdef'', JPacket example_pkt, JOpts (example_opts (Some [''r1'', ''r2'']))]),
      (''socket.io#/nsp#r2#'',
       [JStr ''abcdef'', JPacket example_pkt, JOpts (example_opts (Some [''r1'', ''r2'']))])]"
  using C1_broadcast_publishes [of "example_opts None" example_cfg example_pkt]
        C1_broadcast_publishes [of "example_opts (Some [''r1'', ''r2''])" example_cfg example_pkt]
  by (simp add: example_opts_def example_cfg_def example_pkt_def chn_nsp_def chn_room_def nsp_text_def)

text \<open>
  C2: for every call \<^verbatim>\<open>broadcast(packet, opts, remote)\<close> with \<^verbatim>\<open>remote\<close> true, the base
  adapter's broadcast is called with \<^verbatim>\<open>(packet, opts)\<close> and that is the only effect: no
  message is published to any channel of the bus.
\<close>

theorem C2_remote_broadcast_is_local_only:
  "broadcast cfg pkt os True = [LocalBroadcast pkt os] \<and>
   published (broadcast cfg pkt os True) = [] \<and>
   local_emits (broadcast cfg pkt os True) = [(pkt, os)]"
  by (simp add: broadcast_def)

subsection \<open>Inbound messages\<close>

text \<open>
  C3: an inbound message whose leading field is the identifier of the node itself is
  dropped: the handler only writes a line to the debug log, and calls neither
  \<^verbatim>\<open>broadcast\<close> nor \<^verbatim>\<open>clients\<close>. On a broadcast channel this holds as it stands. On the
  request channel the leading field is read as the namespace of the request, so there
  the drop needs the name of the namespace to differ from the identifier, as it does
  when names of namespaces begin with a slash.
\<close>

theorem C3_own_uid_is_dropped:
  assumes "elem0 (slice_last 1 (split_hash channel)) \<noteq> Some ''clientrequest'' \<or> nsp_name cfg \<noteq> uid cfg"
  shows "onmessage cfg ev channel (JStr (uid cfg) # rest) = [Debug ''ignore same uid''] \<or>
         onmessage cfg ev channel (JStr (uid cfg) # rest) = [Debug ''ignore different namespace'']"
  using assms by (auto simp: onmessage_def shift_def Let_def)

theorem C3_own_uid_is_dropped_witness:
  "onmessage example_cfg (example_env None) ''socket.io#/nsp#room#''
     [JStr ''abcdef'', JPacket example_pkt, JOpts (example_opts (Some [''room'']))] = [Debug ''ignore same uid''] \<and>
   onmessage example_cfg (example_env None) ''socket.io#clientrequest''
     [JStr ''abcdef'', JStr ''zzzzzz'', JStr ''m1'', JArr [''room'']] = [Debug ''ignore different namespace'']"
  using C3_own_uid_is_dropped [of "''socket.io#/nsp#room#''" example_cfg "example_env None"
          "[JPacket example_pkt, JOpts (example_opts (Some [''room'']))]"]
        C3_own_uid_is_dropped [of "''socket.io#clientrequest''" example_cfg "example_env None"
          "[JStr ''zzzzzz'', JStr ''m1'', JArr [''room'']]"]
  by (simp add: example_cfg_def onmessage_def shift_def elem0_def slice_last_def)

text \<open>
  C5: an inbound broadcast message \<^verbatim>\<open>[sender, packet, opts]\<close> whose sender is another
  node: a packet without \<^verbatim>\<open>nsp\<close> is given \<^verbatim>\<open>nsp = '/'\<close>; then, when the \<^verbatim>\<open>nsp\<close> of the
  packet differs from the name of the namespace of the facade, the message is dropped
  with no local emit; otherwise \<^verbatim>\<open>broadcast\<close> is called on the packet and the options
  with the remote flag true.
\<close>

theorem C5_inbound_broadcast:
  assumes "elem0 (slice_last 1 (split_hash channel)) \<noteq> Some ''clientrequest''"
    and "u \<noteq> uid cfg"
  shows "onmessage cfg ev channel [JStr u, JPacket p, JOpts os] =
           (let p1 = (case nsp p of None \<Rightarrow> p\<lparr>nsp := Some ''/''\<rparr> | Some n \<Rightarrow> p) in
            if nsp p1 \<noteq> Some (nsp_name cfg) then [Debug ''ignore different namespace'']
            else broadcast cfg p1 os True)"
  using assms by (auto simp: onmessage_def shift_def Let_def field0_def split: option.splits)

theorem C5_inbound_broadcast_witness:
  "onmessage example_cfg (example_env None) ''socket.io#/nsp#room#''
     [JStr ''zzzzzz'', JPacket example_pkt, JOpts (example_opts (Some [''room'']))] =
     [LocalBroadcast example_pkt (example_opts (Some [''room'']))] \<and>
   onmessage example_cfg (example_env None) ''socket.io#/nsp#room#''
     [JStr ''zzzzzz'', JPacket \<lparr>nsp = None, data = ''hi''\<rparr>, JOpts (example_opts (Some [''room'']))] =
     [Debug ''ignore different namespace'']"
proof -
  have c: "elem0 (slice_last 1 (split_hash ''socket.io#/nsp#room#'')) \<noteq> Some ''clientrequest''"
    by (simp add: elem0_def slice_last_def)
  have u: "''zzzzzz'' \<noteq> uid example_cfg"
    by (simp add: example_cfg_def)
  show ?thesis
    using C5_inbound_broadcast [OF c u, of "example_env None" example_pkt "example_opts (Some [''room''])"]
          C5_inbound_broadcast [OF c u, of "example_env None" "\<lparr>nsp = None, data = ''hi''\<rparr>" "example_opts (Some [''room''])"]
    by (simp add: example_cfg_def example_pkt_def broadcast_def)
qed

subsection \<open>The clients query\<close>

text \<open>
  C4, as written, is about every fleet call \<^verbatim>\<open>clients(rooms, fn)\<close> that does not fail
  locally, and gives \<^verbatim>\<open>fn\<close> the list of client ids as its second argument. The local
  lookup succeeds here, with the clients \<^verbatim>\<open>A1\<close> and \<^verbatim>\<open>A2\<close>, and the bus refuses the
  count of subscribers: \<^verbatim>\<open>fn\<close> is called once, with the error of the bus and without
  any list; no timer is set and no request is published.
\<close>

theorem C4_failed_numsub_counterexample:
  "base_clients ((example_env None)\<lparr>numsub := Inl (Failure ''connection lost'')\<rparr>) (JArr [''room'']) =
     (None, Some [''A1'', ''A2'']) \<and>
   clients example_cfg ((example_env None)\<lparr>numsub := Inl (Failure ''connection lost'')\<rparr>)
       (JArr [''room'']) Fn None False =
     ([LocalClients (JArr [''room'']), BusNumsub ''socket.io#clientrequest'',
       CallFn (Some (Failure ''connection lost'')) None], None)"
  by (simp add: clients_def example_env_def call_fn_def chn_request_def example_cfg_def)

text \<open>
  C4, amended: a fleet call \<^verbatim>\<open>clients(rooms, fn)\<close>, without channel and remote flag,
  whose local lookup does not fail; the identifier drawn for the query has no \<^verbatim>\<open>#\<close>
  (\<^verbatim>\<open>uid2\<close> draws letters and digits). When the count of subscribers cannot be read,
  \<^verbatim>\<open>fn\<close> is called once, with the error and without list, and no query is left. When
  the count is \<open>S\<close>, the timer is set to the base timeout times \<open>S - 1\<close>, and \<^verbatim>\<open>fn\<close> is
  not called before an event arrives; whatever messages and timer events follow, the
  messages that the listener takes for responses being responses \<^verbatim>\<open>[sids]\<close> on the
  channel of the query, \<^verbatim>\<open>fn\<close> is called as the specification says: once, without
  error, when the timer fires or when the response number \<open>S - 1\<close> arrives, whichever
  comes first, with the local list followed by the lists of the responses received
  until then, in the order of arrival and with duplicates kept; and not at all as long
  as neither has happened.
\<close>

theorem C4_fleet_query_completes_once:
  assumes "base_clients ev rms = (None, s)" and "CHR ''#'' \<notin> set (fresh_uid ev)"
  shows "(\<forall>err. numsub ev = Inl err \<longrightarrow>
            snd (clients cfg ev rms Fn None False) = None \<and>
            fn_calls (fst (clients cfg ev rms Fn None False)) = [(Some err, None)]) \<and>
         (\<forall>S. numsub ev = Inr S \<longrightarrow>
            (\<exists>start q. clients cfg ev rms Fn None False = (start, Some q) \<and>
               fn_calls start = [] \<and>
               SetTimeout (timeout cfg * (S - 1)) \<in> set start \<and>
               (\<forall>evs. (\<forall>e\<in>set evs. well_formed cfg (fresh_uid ev) e) \<longrightarrow>
                  fn_calls (snd (run_events q evs)) =
                    spec_fn_calls cfg (or_empty s) (fresh_uid ev) (S - 1) evs \<and>
                  (Timeout \<in> set evs \<longrightarrow> length (fn_calls (snd (run_events q evs))) = 1))))"
proof (intro conjI allI impI)
  fix err
  assume "numsub ev = Inl err"
  with assms(1) show "snd (clients cfg ev rms Fn None False) = None"
    and "fn_calls (fst (clients cfg ev rms Fn None False)) = [(Some err, None)]"
    by (simp_all add: clients_def call_fn_def)
next
  fix S
  assume S: "numsub ev = Inr S"
  note base = assms(1) S
  let ?q = "\<lparr>q_muid = fresh_uid ev, q_fn = Fn, q_remaining = S - 1, q_sids = or_empty s,
             q_listening = True, q_timer = True\<rparr>"
  have "snd (clients cfg ev rms Fn None False) = Some ?q"
    using base by (simp add: clients_def Let_def)
  moreover have "fn_calls (fst (clients cfg ev rms Fn None False)) = []"
    using base by (simp add: clients_def Let_def fn_calls_append split: option.splits)
  moreover have "SetTimeout (timeout cfg * (S - 1)) \<in> set (fst (clients cfg ev rms Fn None False))"
    using base by (simp add: clients_def Let_def)
  moreover have "\<forall>evs. (\<forall>e\<in>set evs. well_formed cfg (fresh_uid ev) e) \<longrightarrow>
      fn_calls (snd (run_events ?q evs)) =
        spec_fn_calls cfg (or_empty s) (fresh_uid ev) (S - 1) evs \<and>
      (Timeout \<in> set evs \<longrightarrow> length (fn_calls (snd (run_events ?q evs))) = 1)"
    using run_events_calls [of ?q _ cfg] assms(2) by (simp add: spec_fn_calls_def)
  ultimately show "\<exists>start q. clients cfg ev rms Fn None False = (start, Some q) \<and>
       fn_calls start = [] \<and>
       SetTimeout (timeout cfg * (S - 1)) \<in> set start \<and>
       (\<forall>evs. (\<forall>e\<in>set evs. well_formed cfg (fresh_uid ev) e) \<longrightarrow>
          fn_calls (snd (run_events q evs)) =
            spec_fn_calls cfg (or_empty s) (fresh_uid ev) (S - 1) evs \<and>
          (Timeout \<in> set evs \<longrightarrow> length (fn_calls (snd (run_events q evs))) = 1))"
    by (cases "clients cfg ev rms Fn None False") auto
qed

theorem C4_fleet_query_completes_once_witness:
  "fn_calls (snd (run_events (the (snd (clients example_cfg (example_env None) (JArr [''room'']) Fn None False)))
      [Message ''socket.io#q1w2e3#clientresponse'' [JArr [''B1'', ''A1'']], Timeout])) =
     [(None, Some [''A1'', ''A2'', ''B1'', ''A1''])] \<and>
   fn_calls (snd (run_events (the (snd (clients example_cfg (example_env None) (JArr [''room'']) Fn None False)))
      [Message ''socket.io#/nsp#room#'' [JStr ''zzzzzz''], Timeout,
       Message ''socket.io#q1w2e3#clientresponse'' [JArr [''B1'', ''B2'']]])) =
     [(None, Some [''A1'', ''A2''])] \<and>
   fn_calls (fst (clients example_cfg ((example_env None)\<lparr>numsub := Inl (Failure ''connection lost'')\<rparr>)
      (JArr [''room'']) Fn None False)) =
     [(Some (Failure ''connection lost''), None)]"
proof -
  have b: "base_clients (example_env None) (JArr [''room'']) = (None, Some [''A1'', ''A2''])"
    and n: "numsub (example_env None) = Inr 2"
    and h: "CHR ''#'' \<notin> set (fresh_uid (example_env None))"
    by (simp_all add: example_env_def)
  have r2: "\<not> is_response_for ''q1w2e3'' ''socket.io#/nsp#room#''"
    by (simp add: is_response_for_def elem0_def slice_last_def)
  have c: "chn_response example_cfg ''q1w2e3'' = ''socket.io#q1w2e3#clientresponse''"
    by (simp add: chn_response_def example_cfg_def)
  from C4_fleet_query_completes_once [OF b h, of example_cfg] n
  obtain start q where q: "clients example_cfg (example_env None) (JArr [''room'']) Fn None False = (start, Some q)"
    and calls: "\<And>evs. (\<forall>e\<in>set evs. well_formed example_cfg (fresh_uid (example_env None)) e) \<Longrightarrow>
        fn_calls (snd (run_events q evs)) =
          spec_fn_calls example_cfg (or_empty (Some [''A1'', ''A2''])) (fresh_uid (example_env None)) (2 - 1) evs"
    by blast
  have m: "fresh_uid (example_env None) = ''q1w2e3''"
    by (simp add: example_env_def)
  have "fn_calls (snd (run_events q
      [Message ''socket.io#q1w2e3#clientresponse'' [JArr [''B1'', ''A1'']], Timeout])) =
     [(None, Some [''A1'', ''A2'', ''B1'', ''A1''])]"
    using calls [of "[Message ''socket.io#q1w2e3#clientresponse'' [JArr [''B1'', ''A1'']], Timeout]"]
    by (simp add: m c spec_fn_calls_def)
  moreover have "fn_calls (snd (run_events q
      [Message ''socket.io#/nsp#room#'' [JStr ''zzzzzz''], Timeout,
       Message ''socket.io#q1w2e3#clientresponse'' [JArr [''B1'', ''B2'']]])) =
     [(None, Some [''A1'', ''A2''])]"
    using calls [of "[Message ''socket.io#/nsp#room#'' [JStr ''zzzzzz''], Timeout,
       Message ''socket.io#q1w2e3#clientresponse'' [JArr [''B1'', ''B2'']]]"]
    by (simp add: m c r2 spec_fn_calls_def)
  moreover have "fn_calls (fst (clients example_cfg
      ((example_env None)\<lparr>numsub := Inl (Failure ''connection lost'')\<rparr>)
      (JArr [''room'']) Fn None False)) = [(Some (Failure ''connection lost''), None)]"
    using C4_fleet_query_completes_once [of "(example_env None)\<lparr>numsub := Inl (Failure ''connection lost'')\<rparr>"
        "JArr [''room'']" "Some [''A1'', ''A2'']" example_cfg]
    by (simp add: example_env_def)
  ultimately show ?thesis
    using q by simp
qed

text \<open>
  C8, as written, asks for a response to every request that a node accepts. On the
  facade of the example a request of the right namespace and of another node, met by a
  local lookup that fails, is answered by no message: the error goes to the callback,
  and the responder has none.
\<close>

theorem C8_failed_lookup_counterexample:
  "published (onmessage example_cfg (example_env (Some (Failure ''lookup failed''))) ''socket.io#clientrequest''
     [JStr ''/nsp'', JStr ''zzzzzz'', JStr ''m1m1m1'', JArr [''room'']]) = []"
  by (simp add: onmessage_def shift_def elem0_def slice_last_def example_cfg_def example_env_def
      clients_def call_fn_def)

text \<open>
  C8, amended: for every inbound clients request \<^verbatim>\<open>[namespace, sender, muid, rooms]\<close>
  whose namespace is that of the facade, whose sender is another node, and for which
  the local lookup does not fail, the node calls the base adapter's \<^verbatim>\<open>clients\<close> and
  publishes exactly one message, holding the local list (possibly empty), to the
  channel \<^verbatim>\<open>{prefix}#{muid}#clientresponse\<close>; it sets no timer and no listener. When
  the local lookup fails, nothing is published.
\<close>

theorem C8_responder_publishes_once:
  assumes "elem0 (slice_last 1 (split_hash channel)) = Some ''clientrequest''"
    and "n = nsp_name cfg"
    and "u \<noteq> uid cfg"
  shows "(\<forall>s. base_clients ev rms = (None, s) \<longrightarrow>
            onmessage cfg ev channel [JStr n, JStr u, JStr m, rms] =
              [LocalClients rms, BusPublish (chn_response cfg m) [JArr (or_empty s)]]) \<and>
         (\<forall>err s. base_clients ev rms = (Some err, s) \<longrightarrow>
            onmessage cfg ev channel [JStr n, JStr u, JStr m, rms] = [LocalClients rms])"
  using assms
  by (simp add: onmessage_def shift_def clients_def chn_response_def channel_text_def call_fn_def)

theorem C8_responder_publishes_once_witness:
  "onmessage example_cfg (example_env None) ''socket.io#clientrequest''
     [JStr ''/nsp'', JStr ''zzzzzz'', JStr ''m1m1m1'', JArr [''room'']] =
     [LocalClients (JArr [''room'']), BusPublish ''socket.io#m1m1m1#clientresponse'' [JArr [''A1'', ''A2'']]] \<and>
   onmessage example_cfg (example_env (Some (Failure ''lookup failed''))) ''socket.io#clientrequest''
     [JStr ''/nsp'', JStr ''zzzzzz'', JStr ''m1m1m1'', JArr [''room'']] =
     [LocalClients (JArr [''room''])]"
proof -
  have c: "elem0 (slice_last 1 (split_hash ''socket.io#clientrequest'')) = Some ''clientrequest''"
    by (simp add: elem0_def slice_last_def)
  have n: "''/nsp'' = nsp_name example_cfg" and u: "''zzzzzz'' \<noteq> uid example_cfg"
    by (simp_all add: example_cfg_def)
  have b: "base_clients (example_env None) (JArr [''room'']) = (None, Some [''A1'', ''A2''])"
    and e: "base_clients (example_env (Some (Failure ''lookup failed''))) (JArr [''room'']) =
              (Some (Failure ''lookup failed''), Some [''A1'', ''A2''])"
    by (simp_all add: example_env_def)
  show ?thesis
    using C8_responder_publishes_once [OF c n u, of "example_env None" "JArr [''room'']" "''m1m1m1''"]
          C8_responder_publishes_once [OF c n u, of "example_env (Some (Failure ''lookup failed''))"
            "JArr [''room'']" "''m1m1m1''"]
          b e
    by (simp add: chn_response_def example_cfg_def)
qed

subsection \<open>Leaving all rooms\<close>

text \<open>
  C7 says that \<^verbatim>\<open>delAll(id, fn)\<close> deletes \<^verbatim>\<open>sids[id]\<close> and calls \<^verbatim>\<open>fn(null)\<close> when every
  unsubscribe succeeds (lemma \<open>delAll_ok\<close>), and that it calls \<^verbatim>\<open>fn\<close> with the error
  and keeps \<^verbatim>\<open>sids[id]\<close> when an unsubscribe fails. The code at a failing unsubscribe:
  the client \<^verbatim>\<open>s1\<close> is the only member of \<^verbatim>\<open>room\<close>, and the bus refuses the unsubscribe.
  \<^verbatim>\<open>delAll('s1', fn)\<close> sends the unsubscribe and emits the error on the facade;
  \<^verbatim>\<open>sids['s1']\<close> stays, but \<^verbatim>\<open>fn\<close> is never called. Lemma
  \<open>delAll_failed_unsubscribe\<close> shows the same for every state and every failing
  unsubscribe.
\<close>

theorem C7_failed_unsubscribe_never_calls_fn:
  "(case delAll example_cfg bus_down one_member ''s1'' Fn of
      None \<Rightarrow> False
    | Some (t, st, es) \<Rightarrow>
        fn_calls es = [] \<and>
        es = [BusUnsubscribe ''socket.io#/nsp#room#'', EmitError (Failure ''connection lost'')] \<and>
        sids st ''s1'' = Some [''room''])"
  by (simp add: delAll_def one_member_simps obj_delete_def ticks_first_def bus_down_def
      chn_room_def example_cfg_def inherited_def)




subsection \<open>Joining and leaving a room\<close>

text \<open>
  C6, as written, is about every state and every pair of a client and a room. On a new
  facade, where \<^verbatim>\<open>sids['s1']\<close> is missing, the two calls leave \<^verbatim>\<open>sids['s1']\<close> behind as
  an empty object. In the state where \<^verbatim>\<open>s1\<close> is the only member of \<^verbatim>\<open>room\<close>,
  \<^verbatim>\<open>add('s1', 'room')\<close> changes nothing but \<^verbatim>\<open>del('s1', 'room')\<close> then removes the member,
  the room and the subscription of its channel.
\<close>

theorem C6_second_add_counterexample:
  "sids (init example_cfg) ''s1'' = None \<and>
   (case add_del example_cfg bus_ok (init example_cfg) ''s1'' ''room'' No_fn of
      None \<Rightarrow> False
    | Some (st2, es) \<Rightarrow> sids st2 ''s1'' = Some []) \<and>
   rooms one_member ''room'' = Some [''s1''] \<and>
   ''socket.io#/nsp#room#'' \<in> subscribed one_member \<and>
   (case add_del example_cfg bus_ok one_member ''s1'' ''room'' No_fn of
      None \<Rightarrow> False
    | Some (st2, es) \<Rightarrow>
        rooms st2 ''room'' = None \<and> ''socket.io#/nsp#room#'' \<notin> subscribed st2)"
  by (simp add: add_del_def add_def del_def Let_def one_member_simps bus_ok_def obj_set_def
      obj_delete_def or_empty_def chn_room_def example_cfg_def init_def inherited_def)

text \<open>
  C6, amended: in every state reached within the model on a bus that does not fail,
  for every client \<open>s\<close> and room \<open>r\<close> whose names are not inherited from
  \<^verbatim>\<open>Object.prototype\<close> and such that \<open>s\<close> is not a member of \<open>r\<close>, \<^verbatim>\<open>add(s, r)\<close> followed
  by \<^verbatim>\<open>del(s, r)\<close>, on a bus that does not fail, gives back the map \<^verbatim>\<open>rooms\<close> and the
  set of subscribed channels as they were, and the map \<^verbatim>\<open>sids\<close> as it was but for the
  entry of \<open>s\<close>, which is now present, with the rooms it had (none if it was missing).
\<close>

theorem C6_add_then_del_restores:
  assumes "reachable cfg st" and "\<not> inherited sid" and "\<not> inherited room"
    and "sid \<notin> members st room"
  shows "\<exists>st2 es. add_del cfg bus_ok st sid room fn = Some (st2, es) \<and>
           rooms st2 = rooms st \<and>
           sids st2 = (sids st)(sid \<mapsto> or_empty (sids st sid)) \<and>
           subscribed st2 = subscribed st \<and>
           (\<forall>s. rooms_of st2 s = rooms_of st s) \<and>
           (\<forall>r. members st2 r = members st r)"
proof -
  let ?c = "chn_room cfg (nsp_name cfg) room"
  let ?ms = "or_empty (rooms st room)"
  let ?rs = "or_empty (sids st sid)"
  let ?st1 = "st\<lparr>sids := (sids st)(sid \<mapsto> obj_set room ?rs),
                  rooms := (rooms st)(room \<mapsto> obj_set sid ?ms),
                  subscribed := insert ?c (subscribed st)\<rparr>"
  from assms(1) have con: "consistent cfg st"
    by (rule reachable_consistent)
  from assms(4) have ms: "sid \<notin> set ?ms"
    by (simp add: members_def)
  from con have "room \<in> rooms_of st sid \<longleftrightarrow> sid \<in> members st room"
    by (simp add: consistent_def)
  with assms(4) have rs: "room \<notin> set ?rs"
    by (simp add: rooms_of_def)
  from con have sub: "?c \<in> subscribed st \<longleftrightarrow> rooms st room \<noteq> None"
    and ne: "rooms st room \<noteq> Some []"
    by (simp_all add: consistent_def)
  have plain: "rooms st ''hasOwnProperty'' = None"
    using con by (rule consistent_plain(1))
  have room: "room \<noteq> ''hasOwnProperty''"
    using assms(3) by (auto simp: inherited_def)
  have back_ms: "obj_delete sid (obj_set sid ?ms) = ?ms"
    using ms by (rule obj_delete_obj_set)
  have back_rs: "obj_delete room (obj_set room ?rs) = ?rs"
    using rs by (rule obj_delete_obj_set)
  have a: "add cfg bus_ok st sid room fn = Some (?st1, BusSubscribe ?c # reply_fn None fn)"
    using assms(2,3) by (simp add: add_Some bus_ok_def)
  have "\<exists>st2 es. del cfg bus_ok ?st1 sid room fn = Some (st2, es) \<and>
          rooms st2 = rooms st \<and> sids st2 = (sids st)(sid \<mapsto> ?rs) \<and>
          subscribed st2 = subscribed st"
  proof (cases "rooms st room")
    case None
    then have "?ms = []" by simp
    with back_ms have e: "obj_delete sid (or_empty (rooms ?st1 room)) = []"
      by simp
    have "?c \<notin> subscribed st"
      using sub None by simp
    then show ?thesis
      using assms(2,3) plain room e None back_rs
      by (simp add: del_Some bus_ok_def fun_eq_iff)
  next
    case (Some ks)
    with ne have "ks \<noteq> []" by auto
    with Some back_ms have e: "obj_delete sid (or_empty (rooms ?st1 room)) \<noteq> []"
      by simp
    have "?c \<in> subscribed st"
      using sub Some by simp
    then show ?thesis
      using assms(2,3) plain room e Some back_rs back_ms
      by (auto simp: del_Some bus_ok_def fun_eq_iff)
  qed
  then obtain st2 es where d: "del cfg bus_ok ?st1 sid room fn = Some (st2, es)"
    and same: "rooms st2 = rooms st" "sids st2 = (sids st)(sid \<mapsto> ?rs)"
      "subscribed st2 = subscribed st"
    by blast
  have "add_del cfg bus_ok st sid room fn = Some (st2, (BusSubscribe ?c # reply_fn None fn) @ es)"
    by (simp add: add_del_def a d)
  moreover have "\<forall>s. rooms_of st2 s = rooms_of st s"
    using same by (simp add: rooms_of_def)
  moreover have "\<forall>r. members st2 r = members st r"
    using same by (simp add: members_def)
  ultimately show ?thesis
    using same by blast
qed

theorem C6_add_then_del_restores_witness:
  "\<exists>st2 es. add_del example_cfg bus_ok one_member ''s2'' ''room'' Fn = Some (st2, es) \<and>
     rooms st2 = rooms one_member \<and>
     sids st2 = [''s1'' \<mapsto> [''room''], ''s2'' \<mapsto> []] \<and>
     subscribed st2 = subscribed one_member"
proof -
  have m: "''s2'' \<notin> members one_member ''room''"
    by (simp add: members_def one_member_simps)
  have p: "\<not> inherited ''s2''" "\<not> inherited ''room''"
    by (simp_all add: inherited_def)
  show ?thesis
    using C6_add_then_del_restores [OF reachable_one_member p m, of Fn]
    by (auto simp: one_member_simps)
qed

text \<open>
  C9, as written, is about every state that sequences of \<^verbatim>\<open>add\<close>, \<^verbatim>\<open>del\<close> and
  \<^verbatim>\<open>delAll\<close> reach, and has the unsubscribe sent exactly when the set of members of
  the room becomes empty. On a new facade, \<^verbatim>\<open>add('s1', 'room')\<close> while the bus refuses
  the subscribe makes \<^verbatim>\<open>s1\<close> a member of \<^verbatim>\<open>room\<close> and leaves the channel of the room
  unsubscribed: \<^verbatim>\<open>add\<close> writes the index before it sends the command and takes nothing
  back. And on a new facade, where \<^verbatim>\<open>room\<close> has no member, \<^verbatim>\<open>del('s1', 'room')\<close> sends
  the unsubscribe for the channel of the room, whose set of members was empty before.
\<close>

theorem C9_failed_subscribe_counterexample:
  "(case add example_cfg bus_down (init example_cfg) ''s1'' ''room'' No_fn of
      None \<Rightarrow> False
    | Some (st1, es) \<Rightarrow>
        members st1 ''room'' = {''s1''} \<and>
        ''socket.io#/nsp#room#'' \<notin> subscribed st1 \<and>
        es = [BusSubscribe ''socket.io#/nsp#room#'', EmitError (Failure ''connection lost'')]) \<and>
   members (init example_cfg) ''room'' = {} \<and>
   (case del example_cfg bus_ok (init example_cfg) ''s1'' ''room'' No_fn of
      None \<Rightarrow> False
    | Some (st1, es) \<Rightarrow> es = [BusUnsubscribe ''socket.io#/nsp#room#''])"
  by (simp add: add_def del_def Let_def bus_ok_def bus_down_def obj_set_def obj_delete_def
      or_empty_def chn_room_def chn_nsp_def chn_request_def example_cfg_def init_def
      inherited_def members_def reply_fn_def call_fn_def)

text \<open>
  C9, amended: in every state reached from a new facade by \<^verbatim>\<open>add\<close>, \<^verbatim>\<open>del\<close> and
  \<^verbatim>\<open>delAll\<close> within the model (no id and no room is a name inherited from
  \<^verbatim>\<open>Object.prototype\<close>) on a bus that does not fail, the channel of a room is
  subscribed if and only if the room has a member. In such a state, with an id and a
  room that are not inherited names, \<^verbatim>\<open>add\<close> sends the subscribe for the channel of
  its room, and \<^verbatim>\<open>del\<close> sends the unsubscribe for a channel exactly when that is the
  channel of its room and the call leaves the room without member, whatever the bus
  answers; and \<^verbatim>\<open>delAll\<close>, for every id, sends the unsubscribe for a channel exactly
  when the client was in that room and the call leaves the room without member.
\<close>

theorem C9_room_channel_subscribed_iff_member:
  assumes "reachable cfg st"
  shows "(chn_room cfg (nsp_name cfg) room \<in> subscribed st \<longleftrightarrow> members st room \<noteq> {}) \<and>
         (\<not> inherited sid \<and> \<not> inherited r \<longrightarrow>
            (\<exists>st1 es. add cfg bus st sid r fn = Some (st1, es) \<and>
               BusSubscribe (chn_room cfg (nsp_name cfg) r) \<in> set es)) \<and>
         (\<not> inherited sid \<and> \<not> inherited r \<longrightarrow>
            (\<exists>st1 es. del cfg bus st sid r fn = Some (st1, es) \<and>
               (BusUnsubscribe (chn_room cfg (nsp_name cfg) room) \<in> set es \<longleftrightarrow>
                  room = r \<and> members st1 room = {}))) \<and>
         (\<exists>t st1 es. delAll cfg bus_ok st sid fn = Some (t, st1, es) \<and>
            (BusUnsubscribe (chn_room cfg (nsp_name cfg) room) \<in> set es \<longleftrightarrow>
               room \<in> rooms_of st sid \<and> members st1 room = {}))"
proof -
  from assms have con: "consistent cfg st"
    by (rule reachable_consistent)
  then have "chn_room cfg (nsp_name cfg) room \<in> subscribed st \<longleftrightarrow> rooms st room \<noteq> None"
    and "rooms st room \<noteq> Some []"
    by (simp_all add: consistent_def)
  then have i: "chn_room cfg (nsp_name cfg) room \<in> subscribed st \<longleftrightarrow> members st room \<noteq> {}"
    by (cases "rooms st room") (simp_all add: members_def)
  have a: "\<exists>st1 es. add cfg bus st sid r fn = Some (st1, es) \<and>
             BusSubscribe (chn_room cfg (nsp_name cfg) r) \<in> set es"
    if "\<not> inherited sid \<and> \<not> inherited r"
    using that by (simp add: add_def Let_def)
  have d: "\<exists>st1 es. del cfg bus st sid r fn = Some (st1, es) \<and>
             (BusUnsubscribe (chn_room cfg (nsp_name cfg) room) \<in> set es \<longleftrightarrow>
                room = r \<and> members st1 room = {})"
    if "\<not> inherited sid \<and> \<not> inherited r"
  proof -
    from that consistent_plain(1) [OF con]
    obtain st1 es where "del cfg bus st sid r fn = Some (st1, es)"
      using del_in_model [of sid r st cfg bus fn] by blast
    with del_unsubscribes [OF this, of room] show ?thesis by blast
  qed
  have l: "\<exists>t st1 es. delAll cfg bus_ok st sid fn = Some (t, st1, es) \<and>
             (BusUnsubscribe (chn_room cfg (nsp_name cfg) room) \<in> set es \<longleftrightarrow>
                room \<in> rooms_of st sid \<and> members st1 room = {})"
  proof -
    have "\<exists>t st1 es. delAll cfg bus_ok st sid fn = Some (t, st1, es)"
    proof (cases "sids st sid")
      case None
      then show ?thesis
        by (cases fn) (simp_all add: delAll_no_entry)
    next
      case (Some rs)
      then show ?thesis
        by (simp add: delAll_ok [OF con Some])
    qed
    then obtain t st1 es where "delAll cfg bus_ok st sid fn = Some (t, st1, es)"
      by blast
    with delAll_unsubscribes [OF con this, of room] show ?thesis by blast
  qed
  from i a d l show ?thesis
    by (intro conjI impI)
qed

theorem C9_room_channel_subscribed_iff_member_witness:
  "''socket.io#/nsp#room#'' \<in> subscribed one_member \<and>
   members one_member ''room'' = {''s1''} \<and>
   (\<exists>st1 es. add example_cfg bus_ok one_member ''s1'' ''room'' No_fn = Some (st1, es) \<and>
      BusSubscribe ''socket.io#/nsp#room#'' \<in> set es) \<and>
   (\<exists>st1 es. del example_cfg bus_ok one_member ''s1'' ''room'' No_fn = Some (st1, es) \<and>
      BusUnsubscribe ''socket.io#/nsp#room#'' \<in> set es \<and> members st1 ''room'' = {}) \<and>
   (\<exists>t st1 es. delAll example_cfg bus_ok one_member ''s1'' No_fn = Some (t, st1, es) \<and>
      BusUnsubscribe ''socket.io#/nsp#room#'' \<in> set es \<and> members st1 ''room'' = {})"
proof -
  have c: "chn_room example_cfg (nsp_name example_cfg) ''room'' = ''socket.io#/nsp#room#''"
    by (simp add: chn_room_def example_cfg_def)
  have m: "members one_member ''room'' = {''s1''}" "''room'' \<in> rooms_of one_member ''s1''"
    by (simp_all add: members_def rooms_of_def one_member_simps)
  have p: "\<not> inherited ''s1''" "\<not> inherited ''room''"
    by (simp_all add: inherited_def)
  have d: "\<exists>st1 es. del example_cfg bus_ok one_member ''s1'' ''room'' No_fn = Some (st1, es) \<and>
             BusUnsubscribe ''socket.io#/nsp#room#'' \<in> set es \<and> members st1 ''room'' = {}"
    by (simp add: del_def Let_def members_def one_member_simps obj_delete_def inherited_def c)
  have a: "\<exists>t st1 es. delAll example_cfg bus_ok one_member ''s1'' No_fn = Some (t, st1, es) \<and>
             BusUnsubscribe ''socket.io#/nsp#room#'' \<in> set es \<and> members st1 ''room'' = {}"
    by (simp add: delAll_def members_def one_member_simps obj_delete_def ticks_first_def
        bus_ok_def delAll_done_def inherited_def c)
  show ?thesis
    using C9_room_channel_subscribed_iff_member [OF reachable_one_member,
            where room = "''room''" and bus = bus_ok and sid = "''s1''" and fn = No_fn and r = "''room''"]
    by (simp add: c m p d a)
qed

end
